theory Spec2Isabelle
  imports Main "HOL-Library.Char_ord" "HOL-Library.List_Lexorder" "HOL-Library.FSet"
begin

section \<open>Errors\<close>

text \<open>
  The error classes of \<^verbatim>\<open>core/errors.ts\<close>. Each constructor carries the strings that the
  class's constructor receives; the optional cause of \<open>DatabaseError\<close> and \<open>BlobError\<close> is
  left out. \<open>RangeError\<close> is the JavaScript engine's own error for an exhausted call stack;
  the recursive tree walk can raise it.
\<close>

datatype error =
    NotFoundError string string
  | AlreadyExistsError string string
  | FileValidationError string
  | NameValidationError string
  | DatabaseError string
  | InvalidOperationError string string
  | BlobError string
  | RangeError


fun isFileValidationError :: "error + 'a \<Rightarrow> bool" where
  "isFileValidationError (Inl (FileValidationError r)) = True"
| "isFileValidationError _ = False"

fun isInvalidOperationError :: "error + 'a \<Rightarrow> bool" where
  "isInvalidOperationError (Inl (InvalidOperationError op r)) = True"
| "isInvalidOperationError _ = False"

fun isNotFoundError :: "error + 'a \<Rightarrow> bool" where
  "isNotFoundError (Inl (NotFoundError r i)) = True"
| "isNotFoundError _ = False"

section \<open>Names (\<^verbatim>\<open>core/utils/names.ts\<close>)\<close>

text \<open>
  A JavaScript string is modelled as a \<^typ>\<open>string\<close>, one \<^typ>\<open>char\<close> per code unit, so
  the model covers the names whose code units are below 256. \<open>isWhitespace\<close> is what
  \<^verbatim>\<open>trim()\<close> and the regular expression class \<^verbatim>\<open>\s\<close> remove in that range: tab, line feed,
  vertical tab, form feed, carriage return, space and the no-break space.
\<close>

definition isWhitespace :: "char \<Rightarrow> bool" where
  "isWhitespace c \<longleftrightarrow> c \<in> set [CHR 0x09, CHR 0x0A, CHR 0x0B, CHR 0x0C, CHR 0x0D, CHR 0x20, CHR 0xA0]"

definition trim :: "string \<Rightarrow> string" where
  "trim s = rev (dropWhile isWhitespace (rev (dropWhile isWhitespace s)))"

text \<open>
  \<^verbatim>\<open>s.replace(/\s+/g, " ")\<close>: every maximal run of whitespace becomes one space. The flag
  says that the previous character was whitespace, so that the run has its space already.
\<close>

fun collapseWhitespace :: "bool \<Rightarrow> string \<Rightarrow> string" where
  "collapseWhitespace inRun [] = []"
| "collapseWhitespace inRun (c # cs) =
     (if isWhitespace c
      then (if inRun then collapseWhitespace True cs else CHR '' '' # collapseWhitespace True cs)
      else c # collapseWhitespace False cs)"

definition normalizeName :: "string \<Rightarrow> string" where
  "normalizeName name = collapseWhitespace False (trim name)"

text \<open>\<^verbatim>\<open>s.lastIndexOf(c)\<close>; JavaScript's \<open>-1\<close> is \<open>None\<close>.\<close>

definition lastIndexOf :: "char \<Rightarrow> string \<Rightarrow> nat option" where
  "lastIndexOf c s =
     (if c \<in> set s then Some (length s - 1 - length (takeWhile (\<lambda>x. x \<noteq> c) (rev s))) else None)"

record NameParts =
  base :: string
  ext :: string

definition splitName :: "string \<Rightarrow> NameParts" where
  "splitName name =
     (case lastIndexOf CHR ''.'' name of
        None \<Rightarrow> \<lparr>base = name, ext = ''''\<rparr>
      | Some lastDotIndex \<Rightarrow>
          if lastDotIndex = 0 then \<lparr>base = name, ext = ''''\<rparr>
          else \<lparr>base = take lastDotIndex name, ext = drop lastDotIndex name\<rparr>)"

text \<open>The decimal digits of a counter, as the template literal \<^verbatim>\<open>${counter}\<close> prints them.\<close>

fun decimal :: "nat \<Rightarrow> string" where
  "decimal n =
     (if n < 10 then [''0123456789'' ! n] else decimal (n div 10) @ [''0123456789'' ! (n mod 10)])"

declare decimal.simps [simp del]

text \<open>The template \<^verbatim>\<open>`${base} (${counter})${ext}`\<close>.\<close>

definition candidateName :: "string \<Rightarrow> string \<Rightarrow> nat \<Rightarrow> string" where
  "candidateName b e counter = b @ '' ('' @ decimal counter @ '')'' @ e"

text \<open>
  The counter is read back from its digits, so two counters never print the same candidate.
\<close>

definition digitValue :: "char \<Rightarrow> nat" where
  "digitValue c = of_char c - 48"

definition undecimal :: "string \<Rightarrow> nat" where
  "undecimal s = foldl (\<lambda>a c. 10 * a + digitValue c) 0 s"

lemma digitValue_digit: "d < 10 \<Longrightarrow> digitValue (''0123456789'' ! d) = d"
proof -
  assume "d < 10"
  then have "d \<in> {0, 1, 2, 3, 4, 5, 6, 7, 8, 9}" by auto
  then show ?thesis by (auto simp: digitValue_def)
qed

lemma undecimal_decimal: "undecimal (decimal n) = n"
proof (induction n rule: decimal.induct)
  case (1 n)
  show ?case
  proof (cases "n < 10")
    case True
    then show ?thesis
      by (subst decimal.simps) (simp add: undecimal_def digitValue_digit)
  next
    case False
    then have "undecimal (decimal (n div 10)) = n div 10" using 1 by simp
    then show ?thesis using False
      by (subst decimal.simps) (simp add: undecimal_def digitValue_digit)
  qed
qed

lemma decimal_inj: "decimal m = decimal n \<Longrightarrow> m = n"
  by (metis undecimal_decimal)

lemma candidateName_inj: "candidateName b e m = candidateName b e n \<Longrightarrow> m = n"
  by (simp add: candidateName_def decimal_inj)

text \<open>
  The \<^verbatim>\<open>while (existingNames.has(candidate))\<close> loop of \<open>generateUniqueName\<close>. A JavaScript
  \<^verbatim>\<open>Set\<close> is finite, hence the \<^typ>\<open>string fset\<close>; the loop ends because each round leaves one
  candidate of the set behind.
\<close>

function nextFreeCandidate :: "string \<Rightarrow> string \<Rightarrow> string fset \<Rightarrow> nat \<Rightarrow> string" where
  "nextFreeCandidate b e existingNames counter =
     (if candidateName b e counter |\<in>| existingNames
      then nextFreeCandidate b e existingNames (counter + 1)
      else candidateName b e counter)"
  by pat_completeness auto
termination
proof (relation "measure (\<lambda>(b, e, S, counter). card {n \<in> fset S. \<exists>k\<ge>counter. n = candidateName b e k})")
  show "wf (measure (\<lambda>(b, e, S, counter). card {n \<in> fset S. \<exists>k\<ge>counter. n = candidateName b e k}))"
    by simp
next
  fix b e :: string and S :: "string fset" and counter :: nat
  assume taken: "candidateName b e counter |\<in>| S"
  let ?A = "\<lambda>c. {n \<in> fset S. \<exists>k\<ge>c. n = candidateName b e k}"
  have "?A (counter + 1) \<subseteq> ?A counter"
  proof
    fix n assume "n \<in> ?A (counter + 1)"
    then obtain k where "n \<in> fset S" "counter + 1 \<le> k" "n = candidateName b e k" by blast
    then have "n \<in> fset S \<and> counter \<le> k \<and> n = candidateName b e k" by simp
    then show "n \<in> ?A counter" by blast
  qed
  moreover have "candidateName b e counter \<in> ?A counter" using taken by auto
  moreover have "candidateName b e counter \<notin> ?A (counter + 1)"
    by (auto dest: candidateName_inj)
  ultimately have "?A (counter + 1) \<subset> ?A counter" by blast
  then have "card (?A (counter + 1)) < card (?A counter)"
    by (intro psubset_card_mono) auto
  then show "((b, e, S, counter + 1), (b, e, S, counter))
      \<in> measure (\<lambda>(b, e, S, counter). card {n \<in> fset S. \<exists>k\<ge>counter. n = candidateName b e k})"
    by simp
qed

declare nextFreeCandidate.simps [simp del]

definition generateUniqueName :: "string \<Rightarrow> string fset \<Rightarrow> string" where
  "generateUniqueName baseName existingNames =
     (if baseName |\<notin>| existingNames then baseName
      else nextFreeCandidate (base (splitName baseName)) (ext (splitName baseName)) existingNames 1)"

datatype EntityKind = FileKind | FolderKind

definition invalidChars :: "char list" where
  "invalidChars = [CHR ''<'', CHR ''>'', CHR '':'', CHR 0x22, CHR ''/'', CHR 0x5C, CHR ''|'', CHR ''?'', CHR ''*'']"

definition reservedNames :: "string list" where
  "reservedNames =
     [''CON'', ''PRN'', ''AUX'', ''NUL'',
      ''COM1'', ''COM2'', ''COM3'', ''COM4'', ''COM5'', ''COM6'', ''COM7'', ''COM8'', ''COM9'',
      ''LPT1'', ''LPT2'', ''LPT3'', ''LPT4'', ''LPT5'', ''LPT6'', ''LPT7'', ''LPT8'', ''LPT9'']"

text \<open>
  \<^verbatim>\<open>toUpperCase()\<close> on the letters a to z. The reserved names are ASCII letters and digits,
  and no other character has one of their letters as its upper case, so the membership test
  of \<open>validateName\<close> needs no more.
\<close>

definition upperChar :: "char \<Rightarrow> char" where
  "upperChar c =
     (if CHR ''a'' \<le> c \<and> c \<le> CHR ''z'' then char_of (of_char c - (32::nat)) else c)"

definition toUpperCase :: "string \<Rightarrow> string" where
  "toUpperCase s = map upperChar s"

definition validateName :: "string \<Rightarrow> EntityKind \<Rightarrow> error + unit" where
  "validateName name kind =
     (if name = [] then Inl (NameValidationError ''Name cannot be empty'')
      else let trimmed = trim name in
        if length trimmed = 0 then Inl (NameValidationError ''Name cannot be only whitespace'')
        else if length trimmed > 255 then Inl (NameValidationError ''Name cannot exceed 255 characters'')
        else if \<exists>c \<in> set trimmed. c \<in> set invalidChars
          then Inl (NameValidationError ''Name contains invalid characters'')
        else let nameToCheck = (if kind = FileKind then base (splitName trimmed) else trimmed) in
          if toUpperCase nameToCheck \<in> set reservedNames
            then Inl (NameValidationError ([CHR 0x22] @ nameToCheck @ [CHR 0x22] @ '' is a reserved name''))
          else if kind = FileKind then
            (if length (base (splitName trimmed)) = 0
               then Inl (NameValidationError ''File must have a name before the extension'')
             else if ext (splitName trimmed) \<noteq> [] \<and> ext (splitName trimmed) \<noteq> ''.pdf''
               then Inl (NameValidationError ''Only PDF files are supported'')
             else Inr ())
          else Inr ())"

subsection \<open>Properties of the name functions\<close>

lemma nextFreeCandidate_first_free:
  assumes "c \<le> k"
    and "\<And>i. c \<le> i \<Longrightarrow> i < k \<Longrightarrow> candidateName b e i |\<in>| S"
    and "candidateName b e k |\<notin>| S"
  shows "nextFreeCandidate b e S c = candidateName b e k"
  using assms
proof (induction "k - c" arbitrary: c)
  case 0
  then have "c = k" by simp
  with 0 show ?case by (simp add: nextFreeCandidate.simps)
next
  case (Suc d)
  then have lt: "c < k" by simp
  then have taken: "candidateName b e c |\<in>| S" using Suc.prems(2) by simp
  have "nextFreeCandidate b e S (c + 1) = candidateName b e k"
  proof (rule Suc.hyps(1))
    show "d = k - (c + 1)" using Suc.hyps(2) by simp
    show "c + 1 \<le> k" using lt by simp
    show "\<And>i. c + 1 \<le> i \<Longrightarrow> i < k \<Longrightarrow> candidateName b e i |\<in>| S"
      using Suc.prems(2) by simp
    show "candidateName b e k |\<notin>| S" by (rule Suc.prems(3))
  qed
  with taken show ?case by (subst nextFreeCandidate.simps) simp
qed

lemma nextFreeCandidate_fresh: "nextFreeCandidate b e S c |\<notin>| S"
  by (induction b e S c rule: nextFreeCandidate.induct) (subst nextFreeCandidate.simps, simp)

lemma generateUniqueName_fresh: "generateUniqueName n S |\<notin>| S"
  by (simp add: generateUniqueName_def nextFreeCandidate_fresh)

text \<open>
  The rule of the loop: with the name itself taken, the candidates 1 to \<open>k - 1\<close> taken and
  candidate \<open>k\<close> free, \<open>generateUniqueName\<close> returns candidate \<open>k\<close>.
\<close>

lemma generateUniqueName_first_free:
  assumes "n |\<in>| S" and "1 \<le> k"
    and "\<forall>i. 1 \<le> i \<and> i < k \<longrightarrow> candidateName (base (splitName n)) (ext (splitName n)) i |\<in>| S"
    and "candidateName (base (splitName n)) (ext (splitName n)) k |\<notin>| S"
  shows "generateUniqueName n S = candidateName (base (splitName n)) (ext (splitName n)) k"
proof -
  have "nextFreeCandidate (base (splitName n)) (ext (splitName n)) S 1
        = candidateName (base (splitName n)) (ext (splitName n)) k"
    using assms by (intro nextFreeCandidate_first_free) auto
  with assms(1) show ?thesis by (simp add: generateUniqueName_def)
qed








section \<open>Records and tables (\<^verbatim>\<open>core/types.ts\<close>, \<^verbatim>\<open>core/repos/db.ts\<close>)\<close>

type_synonym ID = string

record Dataroom =
  id :: ID
  name :: string
  createdAt :: nat
  updatedAt :: nat

record Folder =
  id :: ID
  dataroomId :: ID
  parentId :: "ID option"
  name :: string
  createdAt :: nat
  updatedAt :: nat

record FileObject =
  id :: ID
  dataroomId :: ID
  parentId :: "ID option"
  name :: string
  mimeType :: string
  size :: nat
  blobKey :: ID
  createdAt :: nat
  updatedAt :: nat

text \<open>
  The browser's \<^verbatim>\<open>File\<close>, which is a \<^verbatim>\<open>Blob\<close>: the services read its name, its type and its
  size, and store the object itself as the blob's data.
\<close>

record File =
  name :: string
  type :: string
  size :: nat
  bytes :: "nat list"

record DBBlob =
  key :: ID
  data :: File

text \<open>
  The four Dexie tables. A table is the list of its records in the order of their primary
  keys, which is the order in which Dexie enumerates them; \<open>add\<close> refuses a key that is
  present. \<open>issued\<close> is not a table: it holds the ids that \<open>generateId\<close> has returned.
\<close>

record World =
  datarooms :: "Dataroom list"
  folders :: "Folder list"
  files :: "FileObject list"
  blobs :: "DBBlob list"
  issued :: "ID set"

definition emptyWorld :: World where
  "emptyWorld = \<lparr>datarooms = [], folders = [], files = [], blobs = [], issued = {}\<rparr>"

text \<open>
  \<^verbatim>\<open>generateId()\<close> is \<^verbatim>\<open>nanoid()\<close>, a random id of 21 characters. The id it returns is an
  argument of the model; the call records it.
\<close>

definition generateId :: "ID \<Rightarrow> World \<Rightarrow> World" where
  "generateId i w = w\<lparr>issued := insert i (issued w)\<rparr>"

section \<open>Repositories (\<^verbatim>\<open>core/repos\<close>)\<close>

text \<open>
  Each repository method wraps its Dexie call in \<^verbatim>\<open>try/catch\<close> and rethrows a failure as
  \<open>DatabaseError\<close> (\<open>BlobError\<close> for blobs). The one Dexie failure that depends on the data
  is \<open>add\<close> on a key that exists; it is modelled. The count that \<open>update\<close> returns is read
  by no caller and is left out. \<open>now\<close> is the value of \<^verbatim>\<open>Date.now()\<close>; an operation
  that reads the clock more than once is given the same value for each reading.
\<close>

subsection \<open>DataroomRepo\<close>

definition DataroomRepo_insert :: "Dataroom \<Rightarrow> World \<Rightarrow> (error + ID) \<times> World" where
  "DataroomRepo_insert dataroom w =
     (if \<exists>d \<in> set (datarooms w). Dataroom.id d = Dataroom.id dataroom
      then (Inl (DatabaseError ''Failed to insert dataroom''), w)
      else (Inr (Dataroom.id dataroom),
            w\<lparr>datarooms := insort_key Dataroom.id dataroom (datarooms w)\<rparr>))"

definition DataroomRepo_get :: "World \<Rightarrow> ID \<Rightarrow> Dataroom option" where
  "DataroomRepo_get w i = find (\<lambda>d. Dataroom.id d = i) (datarooms w)"

definition DataroomRepo_getRequired :: "World \<Rightarrow> ID \<Rightarrow> error + Dataroom" where
  "DataroomRepo_getRequired w i =
     (case DataroomRepo_get w i of
        None \<Rightarrow> Inl (NotFoundError ''Dataroom'' i)
      | Some dataroom \<Rightarrow> Inr dataroom)"

text \<open>\<^verbatim>\<open>list()\<close> with its defaults: by \<open>updatedAt\<close>, descending.\<close>

definition DataroomRepo_list :: "World \<Rightarrow> Dataroom list" where
  "DataroomRepo_list w = rev (sort_key Dataroom.updatedAt (datarooms w))"

definition DataroomRepo_updateName :: "nat \<Rightarrow> ID \<Rightarrow> string \<Rightarrow> World \<Rightarrow> World" where
  "DataroomRepo_updateName now i newName w =
     w\<lparr>datarooms := map (\<lambda>d. if Dataroom.id d = i
                               then d\<lparr>Dataroom.name := newName, Dataroom.updatedAt := now\<rparr> else d)
                          (datarooms w)\<rparr>"

definition DataroomRepo_touch :: "nat \<Rightarrow> ID \<Rightarrow> World \<Rightarrow> World" where
  "DataroomRepo_touch now i w =
     w\<lparr>datarooms := map (\<lambda>d. if Dataroom.id d = i then d\<lparr>Dataroom.updatedAt := now\<rparr> else d)
                          (datarooms w)\<rparr>"

definition DataroomRepo_delete :: "ID \<Rightarrow> World \<Rightarrow> World" where
  "DataroomRepo_delete i w = w\<lparr>datarooms := filter (\<lambda>d. Dataroom.id d \<noteq> i) (datarooms w)\<rparr>"

subsection \<open>FolderRepo\<close>

definition FolderRepo_insert :: "Folder \<Rightarrow> World \<Rightarrow> (error + ID) \<times> World" where
  "FolderRepo_insert folder w =
     (if \<exists>f \<in> set (folders w). Folder.id f = Folder.id folder
      then (Inl (DatabaseError ''Failed to insert folder''), w)
      else (Inr (Folder.id folder), w\<lparr>folders := insort_key Folder.id folder (folders w)\<rparr>))"

definition FolderRepo_get :: "World \<Rightarrow> ID \<Rightarrow> Folder option" where
  "FolderRepo_get w i = find (\<lambda>f. Folder.id f = i) (folders w)"

definition FolderRepo_getRequired :: "World \<Rightarrow> ID \<Rightarrow> error + Folder" where
  "FolderRepo_getRequired w i =
     (case FolderRepo_get w i of
        None \<Rightarrow> Inl (NotFoundError ''Folder'' i)
      | Some folder \<Rightarrow> Inr folder)"

text \<open>
  \<open>listByParent\<close> then sorts by name with \<^verbatim>\<open>localeCompare\<close>. Its callers in the services
  test the result for a name, take its first record of a given name or collect its names;
  the sort is stable, so none of them sees it, and the model leaves it out.
\<close>

definition FolderRepo_listByParent :: "World \<Rightarrow> ID option \<Rightarrow> ID \<Rightarrow> Folder list" where
  "FolderRepo_listByParent w parent room =
     filter (\<lambda>f. Folder.dataroomId f = room \<and> Folder.parentId f = parent) (folders w)"

definition FolderRepo_listByDataroom :: "World \<Rightarrow> ID \<Rightarrow> Folder list" where
  "FolderRepo_listByDataroom w room = filter (\<lambda>f. Folder.dataroomId f = room) (folders w)"

definition FolderRepo_updateName :: "nat \<Rightarrow> ID \<Rightarrow> string \<Rightarrow> World \<Rightarrow> World" where
  "FolderRepo_updateName now i newName w =
     w\<lparr>folders := map (\<lambda>f. if Folder.id f = i
                             then f\<lparr>Folder.name := newName, Folder.updatedAt := now\<rparr> else f)
                        (folders w)\<rparr>"

definition FolderRepo_delete :: "ID \<Rightarrow> World \<Rightarrow> World" where
  "FolderRepo_delete i w = w\<lparr>folders := filter (\<lambda>f. Folder.id f \<noteq> i) (folders w)\<rparr>"

definition FolderRepo_nameExistsInParent :: "World \<Rightarrow> string \<Rightarrow> ID option \<Rightarrow> ID \<Rightarrow> ID option \<Rightarrow> bool" where
  "FolderRepo_nameExistsInParent w n parent room excludeId =
     list_ex (\<lambda>f. Folder.name f = n \<and> Some (Folder.id f) \<noteq> excludeId)
       (FolderRepo_listByParent w parent room)"

definition FolderRepo_deleteByDataroom :: "ID \<Rightarrow> World \<Rightarrow> nat \<times> World" where
  "FolderRepo_deleteByDataroom room w =
     (length (filter (\<lambda>f. Folder.dataroomId f = room) (folders w)),
      w\<lparr>folders := filter (\<lambda>f. Folder.dataroomId f \<noteq> room) (folders w)\<rparr>)"

subsection \<open>FileRepo\<close>

definition FileRepo_insert :: "FileObject \<Rightarrow> World \<Rightarrow> (error + ID) \<times> World" where
  "FileRepo_insert file w =
     (if \<exists>f \<in> set (files w). FileObject.id f = FileObject.id file
      then (Inl (DatabaseError ''Failed to insert file''), w)
      else (Inr (FileObject.id file), w\<lparr>files := insort_key FileObject.id file (files w)\<rparr>))"

definition FileRepo_get :: "World \<Rightarrow> ID \<Rightarrow> FileObject option" where
  "FileRepo_get w i = find (\<lambda>f. FileObject.id f = i) (files w)"

definition FileRepo_getRequired :: "World \<Rightarrow> ID \<Rightarrow> error + FileObject" where
  "FileRepo_getRequired w i =
     (case FileRepo_get w i of
        None \<Rightarrow> Inl (NotFoundError ''File'' i)
      | Some file \<Rightarrow> Inr file)"

text \<open>
  \<open>FileRepo.listByParent\<close> tests its optional \<open>dataroomId\<close> for truth: with the empty string
  it selects by parent alone. The sort is left out as for folders.
\<close>

definition FileRepo_listByParent :: "World \<Rightarrow> ID option \<Rightarrow> ID \<Rightarrow> FileObject list" where
  "FileRepo_listByParent w parent room =
     (if room \<noteq> ''''
      then filter (\<lambda>f. FileObject.dataroomId f = room \<and> FileObject.parentId f = parent) (files w)
      else filter (\<lambda>f. FileObject.parentId f = parent) (files w))"

definition FileRepo_listByDataroom :: "World \<Rightarrow> ID \<Rightarrow> FileObject list" where
  "FileRepo_listByDataroom w room = filter (\<lambda>f. FileObject.dataroomId f = room) (files w)"

definition FileRepo_updateName :: "nat \<Rightarrow> ID \<Rightarrow> string \<Rightarrow> World \<Rightarrow> World" where
  "FileRepo_updateName now i newName w =
     w\<lparr>files := map (\<lambda>f. if FileObject.id f = i
                           then f\<lparr>FileObject.name := newName, FileObject.updatedAt := now\<rparr> else f)
                      (files w)\<rparr>"

definition FileRepo_delete :: "ID \<Rightarrow> World \<Rightarrow> World" where
  "FileRepo_delete i w = w\<lparr>files := filter (\<lambda>f. FileObject.id f \<noteq> i) (files w)\<rparr>"

definition FileRepo_nameExistsInParent :: "World \<Rightarrow> string \<Rightarrow> ID option \<Rightarrow> ID \<Rightarrow> ID option \<Rightarrow> bool" where
  "FileRepo_nameExistsInParent w n parent room excludeId =
     list_ex (\<lambda>f. FileObject.name f = n \<and> Some (FileObject.id f) \<noteq> excludeId)
       (FileRepo_listByParent w parent room)"

definition FileRepo_deleteByDataroom :: "ID \<Rightarrow> World \<Rightarrow> nat \<times> World" where
  "FileRepo_deleteByDataroom room w =
     (length (filter (\<lambda>f. FileObject.dataroomId f = room) (files w)),
      w\<lparr>files := filter (\<lambda>f. FileObject.dataroomId f \<noteq> room) (files w)\<rparr>)"

subsection \<open>BlobRepo\<close>

text \<open>\<open>put\<close> adds the record or replaces the one stored under the key.\<close>

definition BlobRepo_put :: "ID \<Rightarrow> File \<Rightarrow> World \<Rightarrow> World" where
  "BlobRepo_put k d w =
     w\<lparr>blobs := insort_key DBBlob.key \<lparr>key = k, data = d\<rparr>
                   (filter (\<lambda>b. DBBlob.key b \<noteq> k) (blobs w))\<rparr>"

definition BlobRepo_get :: "World \<Rightarrow> ID \<Rightarrow> File option" where
  "BlobRepo_get w k = map_option DBBlob.data (find (\<lambda>b. DBBlob.key b = k) (blobs w))"

definition BlobRepo_exists :: "World \<Rightarrow> ID \<Rightarrow> bool" where
  "BlobRepo_exists w k \<longleftrightarrow> find (\<lambda>b. DBBlob.key b = k) (blobs w) \<noteq> None"

definition BlobRepo_delete :: "ID \<Rightarrow> World \<Rightarrow> World" where
  "BlobRepo_delete k w = w\<lparr>blobs := filter (\<lambda>b. DBBlob.key b \<noteq> k) (blobs w)\<rparr>"

text \<open>\<open>deleteMany\<close>: the loop over the keys, with its count of the keys that existed.\<close>

fun BlobRepo_deleteMany :: "ID list \<Rightarrow> nat \<Rightarrow> World \<Rightarrow> nat \<times> World" where
  "BlobRepo_deleteMany [] deletedCount w = (deletedCount, w)"
| "BlobRepo_deleteMany (k # keys) deletedCount w =
     (if BlobRepo_exists w k
      then BlobRepo_deleteMany keys (deletedCount + 1) (BlobRepo_delete k w)
      else BlobRepo_deleteMany keys deletedCount w)"

text \<open>
  \<open>createBlobUrl\<close> hands the blob to the browser's \<^verbatim>\<open>URL.createObjectURL\<close>, which is a
  parameter here.
\<close>

definition BlobRepo_createBlobUrl :: "(File \<Rightarrow> string) \<Rightarrow> World \<Rightarrow> ID \<Rightarrow> string option" where
  "BlobRepo_createBlobUrl createObjectURL w k =
     (case BlobRepo_get w k of None \<Rightarrow> None | Some blob \<Rightarrow> Some (createObjectURL blob))"

section \<open>Tree walks (\<^verbatim>\<open>core/utils/tree.ts\<close>)\<close>

text \<open>
  \<open>getDescendantFolderIds\<close> calls itself for every child folder, and nothing in it ends the
  recursion on folders that are their own ancestors. The first argument is the number of
  nested calls the call stack still has room for; \<open>None\<close> is the engine's \<open>RangeError\<close>
  when the stack is exhausted.
\<close>

fun getDescendantFolderIds :: "nat \<Rightarrow> ID \<Rightarrow> Folder list \<Rightarrow> ID list option" where
  "getDescendantFolderIds 0 folderId allFolders = None"
| "getDescendantFolderIds (Suc depth) folderId allFolders =
     fold (\<lambda>childFolder descendants.
             case descendants of
               None \<Rightarrow> None
             | Some ds \<Rightarrow>
                 (case getDescendantFolderIds depth (Folder.id childFolder) allFolders of
                    None \<Rightarrow> None
                  | Some sub \<Rightarrow> Some (ds @ [Folder.id childFolder] @ sub)))
          (filter (\<lambda>f. Folder.parentId f = Some folderId) allFolders)
          (Some [])"

section \<open>Name collisions (\<^verbatim>\<open>core/utils/nameCollision.ts\<close>)\<close>

datatype NameCollisionAction = Replace | KeepBoth | Cancel

datatype EntityType = FileEntity | FolderEntity | DataroomEntity

record 'a NameCollisionResult =
  finalName :: string
  shouldReplace :: bool
  existingItem :: "'a option"

text \<open>\<^verbatim>\<open>entityType.charAt(0).toUpperCase() + entityType.slice(1)\<close>\<close>

fun entityLabel :: "EntityType \<Rightarrow> string" where
  "entityLabel FileEntity = ''File''"
| "entityLabel FolderEntity = ''Folder''"
| "entityLabel DataroomEntity = ''Dataroom''"

fun entityWord :: "EntityType \<Rightarrow> string" where
  "entityWord FileEntity = ''file''"
| "entityWord FolderEntity = ''folder''"
| "entityWord DataroomEntity = ''dataroom''"

text \<open>
  \<open>resolveNameCollision\<close> reads the \<open>id\<close> and the \<open>name\<close> of the siblings only; the two
  selectors are arguments, so that it serves datarooms, folders and files.
\<close>

definition resolveNameCollision ::
  "('a \<Rightarrow> ID) \<Rightarrow> ('a \<Rightarrow> string) \<Rightarrow> EntityType \<Rightarrow> string \<Rightarrow> NameCollisionAction \<Rightarrow> 'a list
     \<Rightarrow> ID option \<Rightarrow> bool \<Rightarrow> error + 'a NameCollisionResult" where
  "resolveNameCollision idOf nameOf entityType desired action existingSiblings excludeId supportsReplace =
     (case (if entityType \<noteq> DataroomEntity
            then validateName desired (if entityType = FileEntity then FileKind else FolderKind)
            else Inr ()) of
        Inl e \<Rightarrow> Inl e
      | Inr _ \<Rightarrow>
          let normalizedName = normalizeName desired in
          (case find (\<lambda>item. nameOf item = normalizedName \<and> Some (idOf item) \<noteq> excludeId) existingSiblings of
             None \<Rightarrow> Inr \<lparr>finalName = normalizedName, shouldReplace = False, existingItem = None\<rparr>
           | Some item \<Rightarrow>
               (case action of
                  Cancel \<Rightarrow> Inl (AlreadyExistsError (entityLabel entityType) normalizedName)
                | Replace \<Rightarrow>
                    if \<not> supportsReplace
                    then Inl (InvalidOperationError (''replace '' @ entityWord entityType)
                                (''Replace not supported for '' @ entityWord entityType @ ''s''))
                    else Inr \<lparr>finalName = normalizedName, shouldReplace = True, existingItem = Some item\<rparr>
                | KeepBoth \<Rightarrow>
                    Inr \<lparr>finalName =
                           generateUniqueName normalizedName
                             (fset_of_list (map nameOf
                                (filter (\<lambda>item. Some (idOf item) \<noteq> excludeId) existingSiblings))),
                         shouldReplace = False, existingItem = None\<rparr>)))"

definition resolveDataroomNameCollision ::
  "string \<Rightarrow> NameCollisionAction \<Rightarrow> Dataroom list \<Rightarrow> ID option \<Rightarrow> error + Dataroom NameCollisionResult" where
  "resolveDataroomNameCollision desired action existingDatarooms excludeId =
     resolveNameCollision Dataroom.id Dataroom.name DataroomEntity desired action existingDatarooms excludeId False"

text \<open>
  \<^verbatim>\<open>if (parentId) { await FolderRepo.getRequired(parentId); }\<close>: the parent is looked up
  when it passes JavaScript's truth test, which null and the empty string fail.
\<close>

definition verifyParentFolder :: "World \<Rightarrow> ID option \<Rightarrow> error + unit" where
  "verifyParentFolder w parent =
     (case parent of
        None \<Rightarrow> Inr ()
      | Some p \<Rightarrow>
          if p = '''' then Inr ()
          else (case FolderRepo_getRequired w p of Inl e \<Rightarrow> Inl e | Inr _ \<Rightarrow> Inr ()))"

section \<open>FileService (\<^verbatim>\<open>core/services/FileService.ts\<close>)\<close>

definition FileService_delete :: "nat \<Rightarrow> ID \<Rightarrow> World \<Rightarrow> (error + unit) \<times> World" where
  "FileService_delete now i w =
     (case FileRepo_getRequired w i of
        Inl e \<Rightarrow> (Inl e, w)
      | Inr file \<Rightarrow>
          (Inr (),
           DataroomRepo_touch now (FileObject.dataroomId file)
             (FileRepo_delete i (BlobRepo_delete (FileObject.blobKey file) w))))"

text \<open>
  The \<^verbatim>\<open>switch (onNameCollision)\<close> of \<open>upload\<close>, entered when the name exists: it throws,
  deletes the file that has the name, or picks a free name.
\<close>

definition uploadCollision ::
  "nat \<Rightarrow> string \<Rightarrow> ID option \<Rightarrow> ID \<Rightarrow> NameCollisionAction \<Rightarrow> World \<Rightarrow> (error + string) \<times> World" where
  "uploadCollision now normalizedName parent room onNameCollision w =
     (case onNameCollision of
        Cancel \<Rightarrow> (Inl (AlreadyExistsError ''File'' normalizedName), w)
      | Replace \<Rightarrow>
          (case find (\<lambda>f. FileObject.name f = normalizedName) (FileRepo_listByParent w parent room) of
             None \<Rightarrow> (Inr normalizedName, w)
           | Some existingFile \<Rightarrow>
               (case FileService_delete now (FileObject.id existingFile) w of
                  (Inl e, w') \<Rightarrow> (Inl e, w')
                | (Inr _, w') \<Rightarrow> (Inr normalizedName, w')))
      | KeepBoth \<Rightarrow>
          (Inr (generateUniqueName normalizedName
                  (fset_of_list (map FileObject.name (FileRepo_listByParent w parent room)))), w))"

text \<open>
  \<open>upload\<close>. \<open>newBlobKey\<close> and \<open>newId\<close> are what the two calls of \<open>generateId\<close> return.
\<close>

definition FileService_upload ::
  "File \<Rightarrow> ID \<Rightarrow> ID option \<Rightarrow> NameCollisionAction \<Rightarrow> ID \<Rightarrow> ID \<Rightarrow> nat \<Rightarrow> World
     \<Rightarrow> (error + FileObject) \<times> World" where
  "FileService_upload file room parent onNameCollision newBlobKey newId now w =
     (if File.type file \<noteq> ''application/pdf''
      then (Inl (FileValidationError ''Only PDF files are allowed''), w)
      else if File.size file > 50 * 1024 * 1024
      then (Inl (FileValidationError ''File size exceeds maximum limit of 50MB''), w)
      else
        let normalizedName = normalizeName (File.name file) in
        (case validateName normalizedName FileKind of
           Inl e \<Rightarrow> (Inl e, w)
         | Inr _ \<Rightarrow>
        (case DataroomRepo_getRequired w room of
           Inl e \<Rightarrow> (Inl e, w)
         | Inr _ \<Rightarrow>
        (case verifyParentFolder w parent of
           Inl e \<Rightarrow> (Inl e, w)
         | Inr _ \<Rightarrow>
        (case (if FileRepo_nameExistsInParent w normalizedName parent room None
               then uploadCollision now normalizedName parent room onNameCollision w
               else (Inr normalizedName, w)) of
           (Inl e, w1) \<Rightarrow> (Inl e, w1)
         | (Inr final, w1) \<Rightarrow>
             let w2 = BlobRepo_put newBlobKey file (generateId newBlobKey w1);
                 fileObject = \<lparr>FileObject.id = newId, dataroomId = room, parentId = parent,
                               name = final, mimeType = File.type file, size = File.size file,
                               blobKey = newBlobKey, createdAt = now, updatedAt = now\<rparr>
             in (case FileRepo_insert fileObject (generateId newId w2) of
                   (Inl e, w3) \<Rightarrow> (Inl e, w3)
                 | (Inr _, w3) \<Rightarrow> (Inr fileObject, DataroomRepo_touch now room w3)))))))"

definition FileService_get :: "World \<Rightarrow> ID \<Rightarrow> error + FileObject" where
  "FileService_get w i = FileRepo_getRequired w i"

text \<open>The \<^verbatim>\<open>switch\<close> of \<open>rename\<close>; the file being renamed is left out of the siblings.\<close>

definition renameCollision ::
  "nat \<Rightarrow> ID \<Rightarrow> string \<Rightarrow> FileObject \<Rightarrow> NameCollisionAction \<Rightarrow> World \<Rightarrow> (error + string) \<times> World" where
  "renameCollision now i normalizedName file onNameCollision w =
     (case onNameCollision of
        Cancel \<Rightarrow> (Inl (AlreadyExistsError ''File'' normalizedName), w)
      | Replace \<Rightarrow>
          (case find (\<lambda>f. FileObject.name f = normalizedName \<and> FileObject.id f \<noteq> i)
                  (FileRepo_listByParent w (FileObject.parentId file) (FileObject.dataroomId file)) of
             None \<Rightarrow> (Inr normalizedName, w)
           | Some existingFile \<Rightarrow>
               (case FileService_delete now (FileObject.id existingFile) w of
                  (Inl e, w') \<Rightarrow> (Inl e, w')
                | (Inr _, w') \<Rightarrow> (Inr normalizedName, w')))
      | KeepBoth \<Rightarrow>
          (Inr (generateUniqueName normalizedName
                  (fset_of_list (map FileObject.name
                     (filter (\<lambda>f. FileObject.id f \<noteq> i)
                        (FileRepo_listByParent w (FileObject.parentId file) (FileObject.dataroomId file)))))),
           w))"

definition FileService_rename ::
  "ID \<Rightarrow> string \<Rightarrow> NameCollisionAction \<Rightarrow> nat \<Rightarrow> World \<Rightarrow> (error + FileObject) \<times> World" where
  "FileService_rename i newName onNameCollision now w =
     (let normalizedName = normalizeName newName in
      case validateName normalizedName FileKind of
        Inl e \<Rightarrow> (Inl e, w)
      | Inr _ \<Rightarrow>
     (case FileRepo_getRequired w i of
        Inl e \<Rightarrow> (Inl e, w)
      | Inr file \<Rightarrow>
     (case (if FileRepo_nameExistsInParent w normalizedName (FileObject.parentId file)
                 (FileObject.dataroomId file) (Some i)
            then renameCollision now i normalizedName file onNameCollision w
            else (Inr normalizedName, w)) of
        (Inl e, w1) \<Rightarrow> (Inl e, w1)
      | (Inr final, w1) \<Rightarrow>
          let w2 = DataroomRepo_touch now (FileObject.dataroomId file) (FileRepo_updateName now i final w1)
          in (FileService_get w2 i, w2))))"

definition FileService_getBlobUrl :: "(File \<Rightarrow> string) \<Rightarrow> World \<Rightarrow> ID \<Rightarrow> error + string option" where
  "FileService_getBlobUrl createObjectURL w i =
     (case FileRepo_get w i of
        None \<Rightarrow> Inr None
      | Some file \<Rightarrow> Inr (BlobRepo_createBlobUrl createObjectURL w (FileObject.blobKey file)))"

record Download =
  blob :: File
  filename :: string

definition FileService_downloadBlob :: "World \<Rightarrow> ID \<Rightarrow> error + Download option" where
  "FileService_downloadBlob w i =
     (case FileRepo_get w i of
        None \<Rightarrow> Inr None
      | Some file \<Rightarrow>
          (case BlobRepo_get w (FileObject.blobKey file) of
             None \<Rightarrow> Inr None
           | Some b \<Rightarrow> Inr (Some \<lparr>blob = b, filename = FileObject.name file\<rparr>)))"

definition FileService_move :: "ID \<Rightarrow> ID \<Rightarrow> nat \<Rightarrow> World \<Rightarrow> (error + FileObject) \<times> World" where
  "FileService_move i newParentId now w =
     (case FileRepo_getRequired w i of
        Inl e \<Rightarrow> (Inl e, w)
      | Inr file \<Rightarrow>
     (case FolderRepo_getRequired w newParentId of
        Inl e \<Rightarrow> (Inl e, w)
      | Inr _ \<Rightarrow>
          if FileRepo_nameExistsInParent w (FileObject.name file) (Some newParentId)
               (FileObject.dataroomId file) (Some i)
          then (Inl (AlreadyExistsError ''File'' (FileObject.name file)), w)
          else
            let w1 = DataroomRepo_touch now (FileObject.dataroomId file)
                       (FileRepo_updateName now i (FileObject.name file) w)
            in (FileService_get w1 i, w1)))"

section \<open>FolderService (\<^verbatim>\<open>core/services/FolderService.ts\<close>)\<close>

definition FolderService_get :: "World \<Rightarrow> ID \<Rightarrow> error + Folder" where
  "FolderService_get w i = FolderRepo_getRequired w i"

text \<open>The \<^verbatim>\<open>switch (onNameCollision)\<close> of \<open>create\<close> and \<open>rename\<close>, over the sibling names.\<close>

definition folderCollision ::
  "string \<Rightarrow> string \<Rightarrow> NameCollisionAction \<Rightarrow> string fset \<Rightarrow> error + string" where
  "folderCollision operation normalizedName onNameCollision existingNames =
     (case onNameCollision of
        Cancel \<Rightarrow> Inl (AlreadyExistsError ''Folder'' normalizedName)
      | Replace \<Rightarrow> Inl (InvalidOperationError operation ''Replace not supported for folders'')
      | KeepBoth \<Rightarrow> Inr (generateUniqueName normalizedName existingNames))"

definition FolderService_create ::
  "string \<Rightarrow> ID \<Rightarrow> ID option \<Rightarrow> NameCollisionAction \<Rightarrow> ID \<Rightarrow> nat \<Rightarrow> World
     \<Rightarrow> (error + Folder) \<times> World" where
  "FolderService_create newName room parent onNameCollision newId now w =
     (let normalizedName = normalizeName newName in
      case validateName normalizedName FolderKind of
        Inl e \<Rightarrow> (Inl e, w)
      | Inr _ \<Rightarrow>
     (case DataroomRepo_getRequired w room of
        Inl e \<Rightarrow> (Inl e, w)
      | Inr _ \<Rightarrow>
     (case verifyParentFolder w parent of
        Inl e \<Rightarrow> (Inl e, w)
      | Inr _ \<Rightarrow>
     (case (if FolderRepo_nameExistsInParent w normalizedName parent room None
            then folderCollision ''create folder'' normalizedName onNameCollision
                   (fset_of_list (map Folder.name (FolderRepo_listByParent w parent room)))
            else Inr normalizedName) of
        Inl e \<Rightarrow> (Inl e, w)
      | Inr final \<Rightarrow>
          let folder = \<lparr>Folder.id = newId, dataroomId = room, parentId = parent, name = final,
                         createdAt = now, updatedAt = now\<rparr>
          in (case FolderRepo_insert folder (generateId newId w) of
                (Inl e, w1) \<Rightarrow> (Inl e, w1)
              | (Inr _, w1) \<Rightarrow> (Inr folder, DataroomRepo_touch now room w1))))))"

definition FolderService_rename ::
  "ID \<Rightarrow> string \<Rightarrow> NameCollisionAction \<Rightarrow> nat \<Rightarrow> World \<Rightarrow> (error + Folder) \<times> World" where
  "FolderService_rename i newName onNameCollision now w =
     (let normalizedName = normalizeName newName in
      case validateName normalizedName FolderKind of
        Inl e \<Rightarrow> (Inl e, w)
      | Inr _ \<Rightarrow>
     (case FolderRepo_getRequired w i of
        Inl e \<Rightarrow> (Inl e, w)
      | Inr folder \<Rightarrow>
     (case (if FolderRepo_nameExistsInParent w normalizedName (Folder.parentId folder)
                 (Folder.dataroomId folder) (Some i)
            then folderCollision ''rename folder'' normalizedName onNameCollision
                   (fset_of_list (map Folder.name
                      (filter (\<lambda>f. Folder.id f \<noteq> i)
                         (FolderRepo_listByParent w (Folder.parentId folder) (Folder.dataroomId folder)))))
            else Inr normalizedName) of
        Inl e \<Rightarrow> (Inl e, w)
      | Inr final \<Rightarrow>
          let w1 = DataroomRepo_touch now (Folder.dataroomId folder) (FolderRepo_updateName now i final w)
          in (FolderService_get w1 i, w1))))"

text \<open>
  The two nested loops of \<open>delete\<close> over the affected folders and the files of each:
  every file goes through \<open>FileService.delete\<close>, and the count goes up by one after each.
  An error of \<open>FileService.delete\<close> ends the cascade where it stands.
\<close>

fun deleteFolderFiles :: "nat \<Rightarrow> FileObject list \<Rightarrow> nat \<Rightarrow> World \<Rightarrow> (error + nat) \<times> World" where
  "deleteFolderFiles now [] deletedFiles w = (Inr deletedFiles, w)"
| "deleteFolderFiles now (file # folderFiles) deletedFiles w =
     (case FileService_delete now (FileObject.id file) w of
        (Inl e, w') \<Rightarrow> (Inl e, w')
      | (Inr _, w') \<Rightarrow> deleteFolderFiles now folderFiles (deletedFiles + 1) w')"

fun deleteAffectedFiles ::
  "nat \<Rightarrow> ID list \<Rightarrow> FileObject list \<Rightarrow> nat \<Rightarrow> World \<Rightarrow> (error + nat) \<times> World" where
  "deleteAffectedFiles now [] allFiles deletedFiles w = (Inr deletedFiles, w)"
| "deleteAffectedFiles now (folderId # folderIds) allFiles deletedFiles w =
     (case deleteFolderFiles now (filter (\<lambda>f. FileObject.parentId f = Some folderId) allFiles)
             deletedFiles w of
        (Inl e, w') \<Rightarrow> (Inl e, w')
      | (Inr n, w') \<Rightarrow> deleteAffectedFiles now folderIds allFiles n w')"

text \<open>The loop over the descendant folders, deepest first, with its count.\<close>

fun deleteFolders :: "ID list \<Rightarrow> nat \<Rightarrow> World \<Rightarrow> nat \<times> World" where
  "deleteFolders [] deletedFolders w = (deletedFolders, w)"
| "deleteFolders (folderId # sortedFolderIds) deletedFolders w =
     deleteFolders sortedFolderIds (deletedFolders + 1) (FolderRepo_delete folderId w)"

record FolderDeleteResult =
  folders :: nat
  files :: nat

text \<open>\<open>stack\<close> is the room the call stack has for \<open>getDescendantFolderIds\<close>.\<close>

definition FolderService_delete ::
  "nat \<Rightarrow> ID \<Rightarrow> nat \<Rightarrow> World \<Rightarrow> (error + FolderDeleteResult) \<times> World" where
  "FolderService_delete stack i now w =
     (case FolderRepo_getRequired w i of
        Inl e \<Rightarrow> (Inl e, w)
      | Inr folder \<Rightarrow>
          let allFolders = FolderRepo_listByDataroom w (Folder.dataroomId folder);
              allFiles = FileRepo_listByDataroom w (Folder.dataroomId folder)
          in (case getDescendantFolderIds stack i allFolders of
                None \<Rightarrow> (Inl RangeError, w)
              | Some descendantFolderIds \<Rightarrow>
                  (case deleteAffectedFiles now (i # descendantFolderIds) allFiles 0 w of
                     (Inl e, w1) \<Rightarrow> (Inl e, w1)
                   | (Inr deletedFiles, w1) \<Rightarrow>
                       (case deleteFolders (rev descendantFolderIds) 0 w1 of
                          (deletedFolders, w2) \<Rightarrow>
                            (Inr \<lparr>folders = deletedFolders + 1, files = deletedFiles\<rparr>,
                             DataroomRepo_touch now (Folder.dataroomId folder)
                               (FolderRepo_delete i w2))))))"

text \<open>
  The block \<^verbatim>\<open>if (newParentId) { ... }\<close> of \<open>move\<close>: the new parent must exist, and must not
  be among the descendants of the folder.
\<close>

definition moveParentCheck :: "nat \<Rightarrow> World \<Rightarrow> ID \<Rightarrow> Folder \<Rightarrow> ID option \<Rightarrow> error + unit" where
  "moveParentCheck stack w i folder newParentId =
     (case newParentId of
        None \<Rightarrow> Inr ()
      | Some p \<Rightarrow>
          if p = '''' then Inr ()
          else
            (case FolderRepo_getRequired w p of
               Inl e \<Rightarrow> Inl e
             | Inr _ \<Rightarrow>
                 (case getDescendantFolderIds stack i
                         (FolderRepo_listByDataroom w (Folder.dataroomId folder)) of
                    None \<Rightarrow> Inl RangeError
                  | Some descendantIds \<Rightarrow>
                      if p \<in> set descendantIds
                      then Inl (InvalidOperationError ''move folder''
                                  ''Cannot move folder into its own descendant'')
                      else Inr ())))"

definition FolderService_move ::
  "nat \<Rightarrow> ID \<Rightarrow> ID option \<Rightarrow> nat \<Rightarrow> World \<Rightarrow> (error + Folder) \<times> World" where
  "FolderService_move stack i newParentId now w =
     (case FolderRepo_getRequired w i of
        Inl e \<Rightarrow> (Inl e, w)
      | Inr folder \<Rightarrow>
     (case moveParentCheck stack w i folder newParentId of
        Inl e \<Rightarrow> (Inl e, w)
      | Inr _ \<Rightarrow>
          if FolderRepo_nameExistsInParent w (Folder.name folder) newParentId
               (Folder.dataroomId folder) (Some i)
          then (Inl (AlreadyExistsError ''Folder'' (Folder.name folder)), w)
          else
            let w1 = DataroomRepo_touch now (Folder.dataroomId folder)
                       (FolderRepo_updateName now i (Folder.name folder) w)
            in (FolderService_get w1 i, w1)))"

section \<open>DataroomService\<close>

definition DataroomService_get :: "World \<Rightarrow> ID \<Rightarrow> error + Dataroom" where
  "DataroomService_get w i = DataroomRepo_getRequired w i"

definition DataroomService_create :: "string \<Rightarrow> ID \<Rightarrow> nat \<Rightarrow> World \<Rightarrow> (error + Dataroom) \<times> World" where
  "DataroomService_create newName newId now w =
     (case validateName newName FolderKind of
        Inl e \<Rightarrow> (Inl e, w)
      | Inr _ \<Rightarrow>
     (case resolveDataroomNameCollision newName Cancel (DataroomRepo_list w) None of
        Inl e \<Rightarrow> (Inl e, w)
      | Inr r \<Rightarrow>
          let dataroom = \<lparr>Dataroom.id = newId, name = finalName r, createdAt = now, updatedAt = now\<rparr>
          in (case DataroomRepo_insert dataroom (generateId newId w) of
                (Inl e, w1) \<Rightarrow> (Inl e, w1)
              | (Inr _, w1) \<Rightarrow> (Inr dataroom, w1))))"

definition DataroomService_rename :: "ID \<Rightarrow> string \<Rightarrow> nat \<Rightarrow> World \<Rightarrow> (error + Dataroom) \<times> World" where
  "DataroomService_rename i newName now w =
     (case validateName newName FolderKind of
        Inl e \<Rightarrow> (Inl e, w)
      | Inr _ \<Rightarrow>
     (case resolveDataroomNameCollision newName Cancel (DataroomRepo_list w) (Some i) of
        Inl e \<Rightarrow> (Inl e, w)
      | Inr r \<Rightarrow>
          let w1 = DataroomRepo_updateName now i (finalName r) w
          in (DataroomService_get w1 i, w1)))"

record DataroomDeleteResult =
  folders :: nat
  files :: nat
  blobs :: nat

definition DataroomService_delete :: "ID \<Rightarrow> World \<Rightarrow> (error + DataroomDeleteResult) \<times> World" where
  "DataroomService_delete i w =
     (let roomFiles = FileRepo_listByDataroom w i;
          (deletedBlobs, w1) =
             (if length roomFiles > 0
              then BlobRepo_deleteMany (map FileObject.blobKey roomFiles) 0 w
              else (0, w));
          (deletedFiles, w2) = FileRepo_deleteByDataroom i w1;
          (deletedFolders, w3) = FolderRepo_deleteByDataroom i w2
      in (Inr \<lparr>folders = deletedFolders, files = deletedFiles, blobs = deletedBlobs\<rparr>,
          DataroomRepo_delete i w3))"

definition DataroomService_touch :: "ID \<Rightarrow> nat \<Rightarrow> World \<Rightarrow> (error + unit) \<times> World" where
  "DataroomService_touch i now w = (Inr (), DataroomRepo_touch now i w)"

section \<open>A sample store\<close>

text \<open>
  The room \<open>Acme\<close> with folder \<open>A\<close>, its child folder \<open>B\<close>, and the file \<open>q1.pdf\<close> in \<open>B\<close>.
\<close>

definition pdfFile :: File where
  "pdfFile = \<lparr>File.name = ''q1.pdf'', type = ''application/pdf'', size = 3, bytes = [37, 80, 68]\<rparr>"

definition sampleWorld :: World where
  "sampleWorld =
     \<lparr>datarooms = [\<lparr>Dataroom.id = ''r1'', name = ''Acme'', createdAt = 1, updatedAt = 4\<rparr>],
      folders = [\<lparr>Folder.id = ''fa'', dataroomId = ''r1'', parentId = None, name = ''A'', createdAt = 2, updatedAt = 2\<rparr>,
                 \<lparr>Folder.id = ''fb'', dataroomId = ''r1'', parentId = Some ''fa'', name = ''B'', createdAt = 3, updatedAt = 3\<rparr>],
      files = [\<lparr>FileObject.id = ''l1'', dataroomId = ''r1'', parentId = Some ''fb'', name = ''q1.pdf'',
                 mimeType = ''application/pdf'', size = 3, blobKey = ''k1'', createdAt = 4, updatedAt = 4\<rparr>],
      blobs = [\<lparr>key = ''k1'', data = pdfFile\<rparr>],
      issued = {''r1'', ''fa'', ''fb'', ''k1'', ''l1''}\<rparr>"

section \<open>Keep-both collision resolution\<close>

text \<open>
  Claim C4. For a desired name \<open>n\<close> that is among the finite set \<open>S\<close> of sibling names, with
  \<open>(base, ext) = splitName n\<close>: if the names \<open>base (1)ext\<close> to \<open>base (k-1)ext\<close> are all in \<open>S\<close>
  and \<open>base (k)ext\<close> is not, then \<open>generateUniqueName n S\<close> returns exactly \<open>base (k)ext\<close>, and
  what it returns is not a member of \<open>S\<close>. So does keep-both collision resolution wherever
  the code has it: the \<open>keep-both\<close> branch of the folder services, of \<open>upload\<close> and of the
  file \<open>rename\<close>, each with \<open>S\<close> the sibling names it collects, and \<open>resolveNameCollision\<close>
  with action \<open>keep-both\<close> on a valid desired name whose normal form is \<open>n\<close>.
\<close>

theorem generateUniqueName_minimal_suffix:
  assumes "n |\<in>| S" and "1 \<le> k"
    and "\<forall>i. 1 \<le> i \<and> i < k \<longrightarrow> candidateName (base (splitName n)) (ext (splitName n)) i |\<in>| S"
    and "candidateName (base (splitName n)) (ext (splitName n)) k |\<notin>| S"
  shows "generateUniqueName n S = candidateName (base (splitName n)) (ext (splitName n)) k
         \<and> generateUniqueName n S |\<notin>| S
         \<and> folderCollision operation n KeepBoth S
             = Inr (candidateName (base (splitName n)) (ext (splitName n)) k)
         \<and> (S = fset_of_list (map FileObject.name (FileRepo_listByParent w parent room)) \<longrightarrow>
              uploadCollision now n parent room KeepBoth w
                = (Inr (candidateName (base (splitName n)) (ext (splitName n)) k), w))
         \<and> (S = fset_of_list (map FileObject.name
                    (filter (\<lambda>f. FileObject.id f \<noteq> i)
                       (FileRepo_listByParent w (FileObject.parentId renamed) (FileObject.dataroomId renamed)))) \<longrightarrow>
              renameCollision now i n renamed KeepBoth w
                = (Inr (candidateName (base (splitName n)) (ext (splitName n)) k), w))
         \<and> (normalizeName desired = n
              \<and> S = fset_of_list (map nameOf (filter (\<lambda>item. Some (idOf item) \<noteq> excludeId) siblings))
              \<and> (entityType = DataroomEntity
                   \<or> validateName desired (if entityType = FileEntity then FileKind else FolderKind) = Inr ()) \<longrightarrow>
              resolveNameCollision idOf nameOf entityType desired KeepBoth siblings excludeId supportsReplace
                = Inr \<lparr>finalName = candidateName (base (splitName n)) (ext (splitName n)) k,
                       shouldReplace = False, existingItem = None\<rparr>)"
proof -
  let ?c = "candidateName (base (splitName n)) (ext (splitName n)) k"
  have g: "generateUniqueName n S = ?c" by (rule generateUniqueName_first_free [OF assms])
  have fresh: "generateUniqueName n S |\<notin>| S" by (rule generateUniqueName_fresh)
  have folder: "folderCollision operation n KeepBoth S = Inr ?c"
    by (simp add: folderCollision_def g)
  have upload: "uploadCollision now n parent room KeepBoth w = (Inr ?c, w)"
    if "S = fset_of_list (map FileObject.name (FileRepo_listByParent w parent room))"
    using g unfolding that by (simp add: uploadCollision_def)
  have rename: "renameCollision now i n renamed KeepBoth w = (Inr ?c, w)"
    if "S = fset_of_list (map FileObject.name
              (filter (\<lambda>f. FileObject.id f \<noteq> i)
                 (FileRepo_listByParent w (FileObject.parentId renamed) (FileObject.dataroomId renamed))))"
    using g unfolding that by (simp add: renameCollision_def)
  have resolve: "resolveNameCollision idOf nameOf entityType desired KeepBoth siblings excludeId supportsReplace
                = Inr \<lparr>finalName = ?c, shouldReplace = False, existingItem = None\<rparr>"
    if nn: "normalizeName desired = n"
      and s: "S = fset_of_list (map nameOf (filter (\<lambda>item. Some (idOf item) \<noteq> excludeId) siblings))"
      and v: "entityType = DataroomEntity
              \<or> validateName desired (if entityType = FileEntity then FileKind else FolderKind) = Inr ()"
  proof -
    from assms(1) obtain item where "item \<in> set siblings" "nameOf item = n" "Some (idOf item) \<noteq> excludeId"
      unfolding s by (auto simp: fset_of_list.rep_eq)
    then have "find (\<lambda>item. nameOf item = n \<and> Some (idOf item) \<noteq> excludeId) siblings \<noteq> None"
      by (auto simp: find_None_iff)
    then obtain found where
      f: "find (\<lambda>item. nameOf item = n \<and> Some (idOf item) \<noteq> excludeId) siblings = Some found"
      by blast
    have val: "(if entityType \<noteq> DataroomEntity
            then validateName desired (if entityType = FileEntity then FileKind else FolderKind)
            else Inr ()) = Inr ()"
      using v by auto
    show ?thesis
      unfolding resolveNameCollision_def val using f g
      by (simp add: nn Let_def s)
  qed
  from g fresh folder upload rename resolve show ?thesis by blast
qed

text \<open>
  The theorem at the siblings \<open>q1.pdf\<close>, \<open>q1 (1).pdf\<close>, \<open>q1 (2).pdf\<close> and \<open>q1 (4).pdf\<close>, where the
  name returned is \<open>q1 (3).pdf\<close>, and at the files of folder \<open>B\<close> of the sample store, where
  \<open>upload\<close>, \<open>rename\<close> and \<open>resolveNameCollision\<close> turn \<open>q1.pdf\<close> into \<open>q1 (1).pdf\<close>.
\<close>

theorem generateUniqueName_minimal_suffix_witness:
  "generateUniqueName ''q1.pdf'' {|''q1.pdf'', ''q1 (1).pdf'', ''q1 (2).pdf'', ''q1 (4).pdf''|} = ''q1 (3).pdf''
   \<and> folderCollision ''create folder'' ''q1.pdf'' KeepBoth
         {|''q1.pdf'', ''q1 (1).pdf'', ''q1 (2).pdf'', ''q1 (4).pdf''|} = Inr ''q1 (3).pdf''
   \<and> uploadCollision 9 ''q1.pdf'' (Some ''fb'') ''r1'' KeepBoth sampleWorld
       = (Inr ''q1 (1).pdf'', sampleWorld)
   \<and> renameCollision 9 ''l7'' ''q1.pdf''
         \<lparr>FileObject.id = ''l7'', dataroomId = ''r1'', parentId = Some ''fb'', name = ''old.pdf'',
          mimeType = ''application/pdf'', size = 3, blobKey = ''k7'', createdAt = 5, updatedAt = 5\<rparr>
         KeepBoth sampleWorld
       = (Inr ''q1 (1).pdf'', sampleWorld)
   \<and> resolveNameCollision FileObject.id FileObject.name FileEntity '' q1.pdf '' KeepBoth
         (World.files sampleWorld) None True
       = Inr \<lparr>finalName = ''q1 (1).pdf'', shouldReplace = False, existingItem = None\<rparr>"
proof -
  let ?S = "{|''q1.pdf'', ''q1 (1).pdf'', ''q1 (2).pdf'', ''q1 (4).pdf''|}"
  let ?T = "{|''q1.pdf''|}"
  let ?renamed = "\<lparr>FileObject.id = ''l7'', dataroomId = ''r1'', parentId = Some ''fb'', name = ''old.pdf'',
          mimeType = ''application/pdf'', size = 3, blobKey = ''k7'', createdAt = 5, updatedAt = 5\<rparr>"
  have sp: "splitName ''q1.pdf'' = \<lparr>base = ''q1'', ext = ''.pdf''\<rparr>" by code_simp
  have c1: "candidateName ''q1'' ''.pdf'' 1 = ''q1 (1).pdf''" by code_simp
  have c2: "candidateName ''q1'' ''.pdf'' 2 = ''q1 (2).pdf''" by code_simp
  have c3: "candidateName ''q1'' ''.pdf'' 3 = ''q1 (3).pdf''" by code_simp
  have taken: "\<forall>i. 1 \<le> i \<and> i < 3 \<longrightarrow> candidateName (base (splitName ''q1.pdf'')) (ext (splitName ''q1.pdf'')) i |\<in>| ?S"
  proof (intro allI impI)
    fix i :: nat assume "1 \<le> i \<and> i < 3"
    then have "i = 1 \<or> i = 2" by arith
    then show "candidateName (base (splitName ''q1.pdf'')) (ext (splitName ''q1.pdf'')) i |\<in>| ?S"
      using c1 c2 by (auto simp: sp)
  qed
  have free: "candidateName (base (splitName ''q1.pdf'')) (ext (splitName ''q1.pdf'')) 3 |\<notin>| ?S"
    by (simp add: sp c3)
  have inS: "''q1.pdf'' |\<in>| ?S" by simp
  have three: "1 \<le> (3::nat)" by simp
  note big = generateUniqueName_minimal_suffix [where operation = "''create folder''"
      and w = sampleWorld and parent = "Some ''fb''" and room = "''r1''" and now = 9 and i = "''l7''"
      and renamed = ?renamed and desired = "'' q1.pdf ''" and nameOf = FileObject.name
      and idOf = FileObject.id and excludeId = None and siblings = "World.files sampleWorld"
      and entityType = FileEntity and supportsReplace = True, OF inS three taken free]
  have a: "generateUniqueName ''q1.pdf'' ?S = ''q1 (3).pdf''"
    and b: "folderCollision ''create folder'' ''q1.pdf'' KeepBoth ?S = Inr ''q1 (3).pdf''"
    using big by (simp_all add: sp c3)
  have takenT: "\<forall>i. 1 \<le> i \<and> i < 1 \<longrightarrow> candidateName (base (splitName ''q1.pdf'')) (ext (splitName ''q1.pdf'')) i |\<in>| ?T"
    by simp
  have freeT: "candidateName (base (splitName ''q1.pdf'')) (ext (splitName ''q1.pdf'')) 1 |\<notin>| ?T"
    using c1 by (simp add: sp)
  have inT: "''q1.pdf'' |\<in>| ?T" by simp
  have sib1: "?T = fset_of_list (map FileObject.name (FileRepo_listByParent sampleWorld (Some ''fb'') ''r1''))"
    by (simp add: FileRepo_listByParent_def sampleWorld_def)
  have sib2: "?T = fset_of_list (map FileObject.name
                    (filter (\<lambda>f. FileObject.id f \<noteq> ''l7'')
                       (FileRepo_listByParent sampleWorld (FileObject.parentId ?renamed)
                          (FileObject.dataroomId ?renamed))))"
    by (simp add: FileRepo_listByParent_def sampleWorld_def)
  have sib3: "?T = fset_of_list (map FileObject.name
                    (filter (\<lambda>item. Some (FileObject.id item) \<noteq> None) (World.files sampleWorld)))"
    by (simp add: sampleWorld_def)
  have nn: "normalizeName '' q1.pdf '' = ''q1.pdf''" by code_simp
  have vv: "validateName '' q1.pdf '' (if FileEntity = FileEntity then FileKind else FolderKind) = Inr ()"
    by code_simp
  have one: "1 \<le> (1::nat)" by simp
  note small = generateUniqueName_minimal_suffix [where operation = "''create folder''"
      and w = sampleWorld and parent = "Some ''fb''" and room = "''r1''" and now = 9 and i = "''l7''"
      and renamed = ?renamed and desired = "'' q1.pdf ''" and nameOf = FileObject.name
      and idOf = FileObject.id and excludeId = None and siblings = "World.files sampleWorld"
      and entityType = FileEntity and supportsReplace = True, OF inT one takenT freeT]
  have c: "uploadCollision 9 ''q1.pdf'' (Some ''fb'') ''r1'' KeepBoth sampleWorld = (Inr ''q1 (1).pdf'', sampleWorld)"
    using small sib1 c1 by (simp add: sp)
  have d: "renameCollision 9 ''l7'' ''q1.pdf'' ?renamed KeepBoth sampleWorld = (Inr ''q1 (1).pdf'', sampleWorld)"
    using small sib2 c1 by (simp add: sp)
  have e: "resolveNameCollision FileObject.id FileObject.name FileEntity '' q1.pdf '' KeepBoth
         (World.files sampleWorld) None True
       = Inr \<lparr>finalName = ''q1 (1).pdf'', shouldReplace = False, existingItem = None\<rparr>"
    using small sib3 nn vv c1 by (simp add: sp)
  from a b c d e show ?thesis by blast
qed

section \<open>Properties of FileService\<close>

lemma find_insort_key_new:
  "\<not> (\<exists>y \<in> set xs. P y) \<Longrightarrow> P x \<Longrightarrow> find P (insort_key k x xs) = Some x"
  by (induction xs) auto

text \<open>
  Claim C5. \<open>FileService.upload\<close> throws \<open>FileValidationError\<close> whenever the file's type is not
  \<^verbatim>\<open>application/pdf\<close> or its size exceeds 50 * 1024 * 1024 bytes. The two checks come before
  any read or write of the store: the store is returned as it was, and the outcome is the
  same on every other store.
\<close>

theorem FileService_upload_validates_first:
  assumes "File.type file \<noteq> ''application/pdf'' \<or> File.size file > 50 * 1024 * 1024"
  shows "isFileValidationError (fst (FileService_upload file room parent action newBlobKey newId now w))
         \<and> snd (FileService_upload file room parent action newBlobKey newId now w) = w
         \<and> fst (FileService_upload file room parent action newBlobKey newId now w')
             = fst (FileService_upload file room parent action newBlobKey newId now w)"
  using assms by (auto simp: FileService_upload_def)

text \<open>The theorem at a PDF of 50 MiB plus one byte and at a text file.\<close>

theorem FileService_upload_validates_first_witness:
  "isFileValidationError
     (fst (FileService_upload \<lparr>File.name = ''big.pdf'', type = ''application/pdf'', size = 52428801, bytes = []\<rparr>
             ''r1'' None KeepBoth ''k2'' ''l2'' 9 sampleWorld))
   \<and> snd (FileService_upload \<lparr>File.name = ''big.pdf'', type = ''application/pdf'', size = 52428801, bytes = []\<rparr>
             ''r1'' None KeepBoth ''k2'' ''l2'' 9 sampleWorld) = sampleWorld
   \<and> isFileValidationError
     (fst (FileService_upload \<lparr>File.name = ''notes.txt'', type = ''text/plain'', size = 3, bytes = [1, 2, 3]\<rparr>
             ''r1'' None KeepBoth ''k2'' ''l2'' 9 sampleWorld))
   \<and> snd (FileService_upload \<lparr>File.name = ''notes.txt'', type = ''text/plain'', size = 3, bytes = [1, 2, 3]\<rparr>
             ''r1'' None KeepBoth ''k2'' ''l2'' 9 sampleWorld) = sampleWorld"
  using FileService_upload_validates_first
          [of "\<lparr>File.name = ''big.pdf'', type = ''application/pdf'', size = 52428801, bytes = []\<rparr>"
              "''r1''" None KeepBoth "''k2''" "''l2''" 9 sampleWorld sampleWorld]
        FileService_upload_validates_first
          [of "\<lparr>File.name = ''notes.txt'', type = ''text/plain'', size = 3, bytes = [1, 2, 3]\<rparr>"
              "''r1''" None KeepBoth "''k2''" "''l2''" 9 sampleWorld sampleWorld]
  by simp

lemma FileService_upload_success:
  assumes "FileService_upload file room parent action newBlobKey newId now w = (Inr created, w')"
  shows "FileObject.id created = newId \<and> FileObject.blobKey created = newBlobKey
         \<and> FileRepo_get w' newId = Some created \<and> BlobRepo_get w' newBlobKey = Some file"
  using assms
  by (auto simp: FileService_upload_def Let_def FileRepo_insert_def generateId_def BlobRepo_put_def
        DataroomRepo_touch_def FileRepo_get_def BlobRepo_get_def find_insort_key_new
      split: if_splits sum.splits prod.splits)

text \<open>
  Claim C6. After a successful \<open>upload\<close>, \<open>downloadBlob\<close> on the id of the returned record
  yields the uploaded file object itself as the blob and the record's final name as the
  file name; the record is the one stored under that id.
\<close>

theorem upload_then_download_roundtrip:
  assumes "FileService_upload file room parent action newBlobKey newId now w = (Inr created, w')"
  shows "FileService_downloadBlob w' (FileObject.id created)
           = Inr (Some \<lparr>blob = file, filename = FileObject.name created\<rparr>)
         \<and> FileRepo_get w' (FileObject.id created) = Some created"
  using FileService_upload_success [OF assms] by (simp add: FileService_downloadBlob_def)

text \<open>
  The theorem at an upload of \<open>q1.pdf\<close> into folder \<open>B\<close>, which holds a \<open>q1.pdf\<close> already:
  the record is named \<open>q1 (1).pdf\<close>, and so is the download.
\<close>

theorem upload_then_download_roundtrip_witness:
  "FileService_upload pdfFile ''r1'' (Some ''fb'') KeepBoth ''k2'' ''l2'' 9 sampleWorld
     = (Inr \<lparr>FileObject.id = ''l2'', dataroomId = ''r1'', parentId = Some ''fb'', name = ''q1 (1).pdf'',
              mimeType = ''application/pdf'', size = 3, blobKey = ''k2'', createdAt = 9, updatedAt = 9\<rparr>,
        snd (FileService_upload pdfFile ''r1'' (Some ''fb'') KeepBoth ''k2'' ''l2'' 9 sampleWorld))
   \<and> FileService_downloadBlob
        (snd (FileService_upload pdfFile ''r1'' (Some ''fb'') KeepBoth ''k2'' ''l2'' 9 sampleWorld)) ''l2''
       = Inr (Some \<lparr>blob = pdfFile, filename = ''q1 (1).pdf''\<rparr>)"
proof -
  have n: "normalizeName ''q1.pdf'' = ''q1.pdf''" by code_simp
  have v: "validateName ''q1.pdf'' FileKind = Inr ()" by code_simp
  have g: "generateUniqueName ''q1.pdf'' {|''q1.pdf''|} = ''q1 (1).pdf''" by code_simp
  have up: "fst (FileService_upload pdfFile ''r1'' (Some ''fb'') KeepBoth ''k2'' ''l2'' 9 sampleWorld)
      = Inr \<lparr>FileObject.id = ''l2'', dataroomId = ''r1'', parentId = Some ''fb'', name = ''q1 (1).pdf'',
              mimeType = ''application/pdf'', size = 3, blobKey = ''k2'', createdAt = 9, updatedAt = 9\<rparr>"
    by (simp add: FileService_upload_def n v g Let_def pdfFile_def sampleWorld_def
        DataroomRepo_getRequired_def DataroomRepo_get_def verifyParentFolder_def
        FolderRepo_getRequired_def FolderRepo_get_def FileRepo_nameExistsInParent_def
        FileRepo_listByParent_def uploadCollision_def generateId_def BlobRepo_put_def
        FileRepo_insert_def DataroomRepo_touch_def)
  then have eq: "FileService_upload pdfFile ''r1'' (Some ''fb'') KeepBoth ''k2'' ''l2'' 9 sampleWorld
     = (Inr \<lparr>FileObject.id = ''l2'', dataroomId = ''r1'', parentId = Some ''fb'', name = ''q1 (1).pdf'',
              mimeType = ''application/pdf'', size = 3, blobKey = ''k2'', createdAt = 9, updatedAt = 9\<rparr>,
        snd (FileService_upload pdfFile ''r1'' (Some ''fb'') KeepBoth ''k2'' ''l2'' 9 sampleWorld))"
    by (simp add: prod_eq_iff)
  from upload_then_download_roundtrip [OF eq] eq show ?thesis by simp
qed

lemma FileRepo_get_missing:
  "\<not> (\<exists>f \<in> set (World.files w). FileObject.id f = i) \<Longrightarrow> FileRepo_get w i = None"
  by (simp add: FileRepo_get_def find_None_iff)

lemma BlobRepo_get_missing:
  "\<not> (\<exists>b \<in> set (World.blobs w). DBBlob.key b = k) \<Longrightarrow> BlobRepo_get w k = None"
  by (simp add: BlobRepo_get_def find_None_iff)

text \<open>
  Claim C10. When no file record has the id, \<open>downloadBlob\<close> and \<open>getBlobUrl\<close> return null
  and raise nothing; \<open>downloadBlob\<close> also returns null when the record exists and no blob is
  stored under its \<open>blobKey\<close>.
\<close>

theorem blob_access_returns_null:
  "(\<not> (\<exists>f \<in> set (World.files w). FileObject.id f = i) \<longrightarrow>
      FileService_downloadBlob w i = Inr None \<and> FileService_getBlobUrl createObjectURL w i = Inr None)
   \<and> (FileRepo_get w i = Some file \<and> \<not> (\<exists>b \<in> set (World.blobs w). DBBlob.key b = FileObject.blobKey file) \<longrightarrow>
      FileService_downloadBlob w i = Inr None)"
proof (intro conjI impI)
  assume "\<not> (\<exists>f \<in> set (World.files w). FileObject.id f = i)"
  then have "FileRepo_get w i = None" by (rule FileRepo_get_missing)
  then show "FileService_downloadBlob w i = Inr None"
    and "FileService_getBlobUrl createObjectURL w i = Inr None"
    by (simp_all add: FileService_downloadBlob_def FileService_getBlobUrl_def)
next
  assume a: "FileRepo_get w i = Some file \<and> \<not> (\<exists>b \<in> set (World.blobs w). DBBlob.key b = FileObject.blobKey file)"
  then have "BlobRepo_get w (FileObject.blobKey file) = None" by (intro BlobRepo_get_missing) simp
  with a show "FileService_downloadBlob w i = Inr None"
    by (simp add: FileService_downloadBlob_def)
qed

text \<open>
  The theorem at an id that names no file, and at the sample file once its blob is gone.
\<close>

theorem blob_access_returns_null_witness:
  "FileService_downloadBlob sampleWorld ''nope'' = Inr None
   \<and> FileService_getBlobUrl (\<lambda>b. ''blob:'' @ File.name b) sampleWorld ''nope'' = Inr None
   \<and> FileService_downloadBlob (BlobRepo_delete ''k1'' sampleWorld) ''l1'' = Inr None"
proof -
  have a: "\<not> (\<exists>f \<in> set (World.files sampleWorld). FileObject.id f = ''nope'')"
    by (simp add: sampleWorld_def)
  have b: "FileRepo_get (BlobRepo_delete ''k1'' sampleWorld) ''l1''
             = Some \<lparr>FileObject.id = ''l1'', dataroomId = ''r1'', parentId = Some ''fb'', name = ''q1.pdf'',
                 mimeType = ''application/pdf'', size = 3, blobKey = ''k1'', createdAt = 4, updatedAt = 4\<rparr>
           \<and> \<not> (\<exists>b \<in> set (World.blobs (BlobRepo_delete ''k1'' sampleWorld)). DBBlob.key b
                = FileObject.blobKey \<lparr>FileObject.id = ''l1'', dataroomId = ''r1'', parentId = Some ''fb'', name = ''q1.pdf'',
                 mimeType = ''application/pdf'', size = 3, blobKey = ''k1'', createdAt = 4, updatedAt = 4\<rparr>)"
    by (simp add: sampleWorld_def FileRepo_get_def BlobRepo_delete_def)
  from blob_access_returns_null [of sampleWorld "''nope''" "\<lambda>b. ''blob:'' @ File.name b"] a
  have "FileService_downloadBlob sampleWorld ''nope'' = Inr None
   \<and> FileService_getBlobUrl (\<lambda>b. ''blob:'' @ File.name b) sampleWorld ''nope'' = Inr None"
    by blast
  moreover from blob_access_returns_null [of "BlobRepo_delete ''k1'' sampleWorld" "''l1''" _ _] b
  have "FileService_downloadBlob (BlobRepo_delete ''k1'' sampleWorld) ''l1'' = Inr None"
    by blast
  ultimately show ?thesis by blast
qed


section \<open>Properties of move\<close>

lemma find_map_update:
  "find (\<lambda>x. k x = i) (map (\<lambda>x. if k x = i then u x else x) xs)
     = map_option u (find (\<lambda>x. k x = i) xs)" if "\<And>x. k (u x) = k x"
  using that by (induction xs) auto

text \<open>
  \<open>move\<close> writes through \<open>updateName\<close>, which sets the name and the time stamp: whenever
  it succeeds, the record it returns and stores has the parent it had before.
\<close>

lemma FolderService_move_keeps_parentId:
  assumes "FolderService_move stack i newParentId now w = (Inr moved, w')"
    and "FolderRepo_get w i = Some old"
  shows "Folder.parentId moved = Folder.parentId old
         \<and> FolderRepo_get w' i = Some moved"
proof -
  have upd: "FolderRepo_get (DataroomRepo_touch now r (FolderRepo_updateName now i n w)) i
        = Some (old\<lparr>Folder.name := n, Folder.updatedAt := now\<rparr>)" for r n
    using assms(2)
    by (simp add: FolderRepo_get_def DataroomRepo_touch_def FolderRepo_updateName_def find_map_update)
  from assms show ?thesis
    by (auto simp: FolderService_move_def FolderService_get_def FolderRepo_getRequired_def Let_def upd
        split: sum.splits if_splits option.splits)
qed

lemma FileService_move_keeps_parentId:
  assumes "FileService_move i newParentId now w = (Inr moved, w')"
    and "FileRepo_get w i = Some old"
  shows "FileObject.parentId moved = FileObject.parentId old
         \<and> FileRepo_get w' i = Some moved"
proof -
  have upd: "FileRepo_get (DataroomRepo_touch now r (FileRepo_updateName now i n w)) i
        = Some (old\<lparr>FileObject.name := n, FileObject.updatedAt := now\<rparr>)" for r n
    using assms(2)
    by (simp add: FileRepo_get_def DataroomRepo_touch_def FileRepo_updateName_def find_map_update)
  from assms show ?thesis
    by (auto simp: FileService_move_def FileService_get_def FileRepo_getRequired_def Let_def upd
        split: sum.splits if_splits option.splits)
qed

text \<open>A move into a descendant is refused, and the store is as it was.\<close>

lemma FolderService_move_into_descendant:
  assumes "FolderRepo_get w i = Some folder"
    and "FolderRepo_get w d = Some target" and "d \<noteq> ''''"
    and "getDescendantFolderIds stack i (FolderRepo_listByDataroom w (Folder.dataroomId folder)) = Some ds"
    and "d \<in> set ds"
  shows "FolderService_move stack i (Some d) now w
           = (Inl (InvalidOperationError ''move folder'' ''Cannot move folder into its own descendant''), w)"
  using assms
  by (simp add: FolderService_move_def FolderRepo_getRequired_def moveParentCheck_def)

text \<open>
  Claim C1 fails on the code. In the sample store folder \<open>B\<close> lies in folder \<open>A\<close> and the file
  lies in \<open>B\<close>. Moving \<open>B\<close> to the root and moving the file to \<open>A\<close> both pass the validation
  and return normally, and both records keep their old \<open>parentId\<close>.
\<close>

theorem move_does_not_store_new_parent:
  "fst (FolderService_move 10 ''fb'' None 9 sampleWorld)
     = Inr \<lparr>Folder.id = ''fb'', dataroomId = ''r1'', parentId = Some ''fa'', name = ''B'',
             createdAt = 3, updatedAt = 9\<rparr>
   \<and> FolderRepo_get (snd (FolderService_move 10 ''fb'' None 9 sampleWorld)) ''fb''
     = Some \<lparr>Folder.id = ''fb'', dataroomId = ''r1'', parentId = Some ''fa'', name = ''B'',
             createdAt = 3, updatedAt = 9\<rparr>
   \<and> fst (FileService_move ''l1'' ''fa'' 9 sampleWorld)
     = Inr \<lparr>FileObject.id = ''l1'', dataroomId = ''r1'', parentId = Some ''fb'', name = ''q1.pdf'',
             mimeType = ''application/pdf'', size = 3, blobKey = ''k1'', createdAt = 4, updatedAt = 9\<rparr>
   \<and> FileRepo_get (snd (FileService_move ''l1'' ''fa'' 9 sampleWorld)) ''l1''
     = Some \<lparr>FileObject.id = ''l1'', dataroomId = ''r1'', parentId = Some ''fb'', name = ''q1.pdf'',
             mimeType = ''application/pdf'', size = 3, blobKey = ''k1'', createdAt = 4, updatedAt = 9\<rparr>"
  by (simp add: FolderService_move_def FileService_move_def sampleWorld_def Let_def
      FolderRepo_getRequired_def FolderRepo_get_def FileRepo_getRequired_def FileRepo_get_def
      moveParentCheck_def FolderRepo_nameExistsInParent_def FolderRepo_listByParent_def
      FileRepo_nameExistsInParent_def FileRepo_listByParent_def
      FolderRepo_updateName_def FileRepo_updateName_def DataroomRepo_touch_def
      FolderService_get_def FileService_get_def)

text \<open>
  Claim C2 fails on the code for the folder itself: moving folder \<open>A\<close> into \<open>A\<close> raises no
  \<open>InvalidOperationError\<close>; it returns normally and rewrites the folder's time stamp.
\<close>

theorem move_into_itself_succeeds:
  "fst (FolderService_move 10 ''fa'' (Some ''fa'') 9 sampleWorld)
     = Inr \<lparr>Folder.id = ''fa'', dataroomId = ''r1'', parentId = None, name = ''A'',
             createdAt = 2, updatedAt = 9\<rparr>
   \<and> \<not> isInvalidOperationError (fst (FolderService_move 10 ''fa'' (Some ''fa'') 9 sampleWorld))
   \<and> World.folders (snd (FolderService_move 10 ''fa'' (Some ''fa'') 9 sampleWorld))
       \<noteq> World.folders sampleWorld"
proof -
  have d: "getDescendantFolderIds 10 ''fa''
             [\<lparr>Folder.id = ''fa'', dataroomId = ''r1'', parentId = None, name = ''A'', createdAt = 2, updatedAt = 2\<rparr>,
              \<lparr>Folder.id = ''fb'', dataroomId = ''r1'', parentId = Some ''fa'', name = ''B'', createdAt = 3, updatedAt = 3\<rparr>]
           = Some [''fb'']"
    by code_simp
  have "fst (FolderService_move 10 ''fa'' (Some ''fa'') 9 sampleWorld)
     = Inr \<lparr>Folder.id = ''fa'', dataroomId = ''r1'', parentId = None, name = ''A'',
             createdAt = 2, updatedAt = 9\<rparr>
     \<and> World.folders (snd (FolderService_move 10 ''fa'' (Some ''fa'') 9 sampleWorld))
       \<noteq> World.folders sampleWorld"
    by (simp add: FolderService_move_def sampleWorld_def Let_def d
      FolderRepo_getRequired_def FolderRepo_get_def FolderRepo_listByDataroom_def
      moveParentCheck_def FolderRepo_nameExistsInParent_def FolderRepo_listByParent_def
      FolderRepo_updateName_def DataroomRepo_touch_def FolderService_get_def)
  then show ?thesis by simp
qed

section \<open>Properties of DataroomService\<close>

text \<open>
  Claim C9. \<open>DataroomService.delete\<close> never raises \<open>NotFoundError\<close>; for an id that names no
  dataroom and owns no folder and no file it returns the counts 0, 0, 0 and leaves the store
  as it was.
\<close>

theorem DataroomService_delete_unknown_room:
  "\<not> isNotFoundError (fst (DataroomService_delete i w))
   \<and> (\<not> (\<exists>d \<in> set (World.datarooms w). Dataroom.id d = i)
        \<and> \<not> (\<exists>f \<in> set (World.folders w). Folder.dataroomId f = i)
        \<and> \<not> (\<exists>f \<in> set (World.files w). FileObject.dataroomId f = i)
      \<longrightarrow> DataroomService_delete i w
            = (Inr \<lparr>DataroomDeleteResult.folders = 0, files = 0, blobs = 0\<rparr>, w))"
proof -
  have nf: "\<not> isNotFoundError (fst (DataroomService_delete i w))"
    by (simp add: DataroomService_delete_def Let_def split: prod.splits)
  have "DataroomService_delete i w = (Inr \<lparr>DataroomDeleteResult.folders = 0, files = 0, blobs = 0\<rparr>, w)"
    if d: "\<not> (\<exists>d \<in> set (World.datarooms w). Dataroom.id d = i)"
      and fo: "\<not> (\<exists>f \<in> set (World.folders w). Folder.dataroomId f = i)"
      and fi: "\<not> (\<exists>f \<in> set (World.files w). FileObject.dataroomId f = i)"
  proof -
    have 1: "filter (\<lambda>f. FileObject.dataroomId f = i) (World.files w) = []"
      using fi by (simp add: filter_empty_conv)
    have 2: "filter (\<lambda>f. FileObject.dataroomId f \<noteq> i) (World.files w) = World.files w"
      using fi by (simp add: filter_id_conv)
    have 3: "filter (\<lambda>f. Folder.dataroomId f = i) (World.folders w) = []"
      using fo by (simp add: filter_empty_conv)
    have 4: "filter (\<lambda>f. Folder.dataroomId f \<noteq> i) (World.folders w) = World.folders w"
      using fo by (simp add: filter_id_conv)
    have 5: "filter (\<lambda>d. Dataroom.id d \<noteq> i) (World.datarooms w) = World.datarooms w"
      using d by (simp add: filter_id_conv)
    show ?thesis
      by (simp add: DataroomService_delete_def Let_def FileRepo_listByDataroom_def
          FileRepo_deleteByDataroom_def FolderRepo_deleteByDataroom_def DataroomRepo_delete_def 1 2 3 4 5)
  qed
  with nf show ?thesis by blast
qed

text \<open>The theorem at the sample store and an id that is not in it.\<close>

theorem DataroomService_delete_unknown_room_witness:
  "DataroomService_delete ''zz'' sampleWorld
     = (Inr \<lparr>DataroomDeleteResult.folders = 0, files = 0, blobs = 0\<rparr>, sampleWorld)"
proof -
  have "\<not> (\<exists>d \<in> set (World.datarooms sampleWorld). Dataroom.id d = ''zz'')
        \<and> \<not> (\<exists>f \<in> set (World.folders sampleWorld). Folder.dataroomId f = ''zz'')
        \<and> \<not> (\<exists>f \<in> set (World.files sampleWorld). FileObject.dataroomId f = ''zz'')"
    by (simp add: sampleWorld_def)
  with DataroomService_delete_unknown_room [of "''zz''" sampleWorld] show ?thesis by blast
qed

section \<open>Reachable stores\<close>

text \<open>
  \<open>generateId\<close> is random; a store is reachable when every id it was given is one that
  \<^verbatim>\<open>nanoid()\<close> can return at that point: not empty, and not returned before.
\<close>

definition fresh :: "ID \<Rightarrow> World \<Rightarrow> bool" where
  "fresh i w \<longleftrightarrow> i \<noteq> '''' \<and> i \<notin> issued w"

text \<open>
  The stores that the services produce from the empty store. An operation that throws
  keeps what it wrote before, so the store after a failed call is reachable as well.
\<close>

inductive reachable :: "World \<Rightarrow> bool" where
  start: "reachable emptyWorld"
| dataroom_create:
    "reachable w \<Longrightarrow> fresh newId w \<Longrightarrow> reachable (snd (DataroomService_create newName newId now w))"
| dataroom_rename:
    "reachable w \<Longrightarrow> reachable (snd (DataroomService_rename i newName now w))"
| dataroom_delete:
    "reachable w \<Longrightarrow> reachable (snd (DataroomService_delete i w))"
| dataroom_touch:
    "reachable w \<Longrightarrow> reachable (snd (DataroomService_touch i now w))"
| folder_create:
    "reachable w \<Longrightarrow> fresh newId w \<Longrightarrow>
     reachable (snd (FolderService_create newName room parent action newId now w))"
| folder_rename:
    "reachable w \<Longrightarrow> reachable (snd (FolderService_rename i newName action now w))"
| folder_delete:
    "reachable w \<Longrightarrow> reachable (snd (FolderService_delete stack i now w))"
| folder_move:
    "reachable w \<Longrightarrow> reachable (snd (FolderService_move stack i newParentId now w))"
| file_upload:
    "reachable w \<Longrightarrow> fresh newBlobKey w \<Longrightarrow> fresh newId w \<Longrightarrow> newBlobKey \<noteq> newId \<Longrightarrow>
     reachable (snd (FileService_upload file room parent action newBlobKey newId now w))"
| file_rename:
    "reachable w \<Longrightarrow> reachable (snd (FileService_rename i newName action now w))"
| file_delete:
    "reachable w \<Longrightarrow> reachable (snd (FileService_delete now i w))"
| file_move:
    "reachable w \<Longrightarrow> reachable (snd (FileService_move i newParentId now w))"

text \<open>
  The parent links of the folder table, from a folder's id to its \<open>parentId\<close>. A folder is
  its own ancestor when following the links from it leads back to it.
\<close>

definition parentLinks :: "World \<Rightarrow> (ID \<times> ID) set" where
  "parentLinks w = {(Folder.id f, p) | f p. f \<in> set (World.folders w) \<and> Folder.parentId f = Some p}"

subsection \<open>What each write does to the folder table and to the issued ids\<close>

lemma DataroomRepo_writes_folders [simp]:
  "World.folders (DataroomRepo_touch now i w) = World.folders w"
  "World.folders (DataroomRepo_updateName now i n w) = World.folders w"
  "World.folders (DataroomRepo_delete i w) = World.folders w"
  "World.folders (snd (DataroomRepo_insert d w)) = World.folders w"
  by (simp_all add: DataroomRepo_touch_def DataroomRepo_updateName_def DataroomRepo_delete_def
      DataroomRepo_insert_def)

lemma DataroomRepo_writes_issued [simp]:
  "issued (DataroomRepo_touch now i w) = issued w"
  "issued (DataroomRepo_updateName now i n w) = issued w"
  "issued (DataroomRepo_delete i w) = issued w"
  "issued (snd (DataroomRepo_insert d w)) = issued w"
  by (simp_all add: DataroomRepo_touch_def DataroomRepo_updateName_def DataroomRepo_delete_def
      DataroomRepo_insert_def)

lemma FileRepo_writes_folders [simp]:
  "World.folders (FileRepo_updateName now i n w) = World.folders w"
  "World.folders (FileRepo_delete i w) = World.folders w"
  "World.folders (snd (FileRepo_insert f w)) = World.folders w"
  "World.folders (snd (FileRepo_deleteByDataroom r w)) = World.folders w"
  by (simp_all add: FileRepo_updateName_def FileRepo_delete_def FileRepo_insert_def
      FileRepo_deleteByDataroom_def)

lemma FileRepo_writes_issued [simp]:
  "issued (FileRepo_updateName now i n w) = issued w"
  "issued (FileRepo_delete i w) = issued w"
  "issued (snd (FileRepo_insert f w)) = issued w"
  "issued (snd (FileRepo_deleteByDataroom r w)) = issued w"
  by (simp_all add: FileRepo_updateName_def FileRepo_delete_def FileRepo_insert_def
      FileRepo_deleteByDataroom_def)

lemma BlobRepo_writes_folders [simp]:
  "World.folders (BlobRepo_put k d w) = World.folders w"
  "World.folders (BlobRepo_delete k w) = World.folders w"
  by (simp_all add: BlobRepo_put_def BlobRepo_delete_def)

lemma BlobRepo_writes_issued [simp]:
  "issued (BlobRepo_put k d w) = issued w"
  "issued (BlobRepo_delete k w) = issued w"
  by (simp_all add: BlobRepo_put_def BlobRepo_delete_def)

lemma BlobRepo_deleteMany_folders [simp]:
  "World.folders (snd (BlobRepo_deleteMany ks n w)) = World.folders w"
  by (induction ks arbitrary: n w) simp_all

lemma BlobRepo_deleteMany_issued [simp]:
  "issued (snd (BlobRepo_deleteMany ks n w)) = issued w"
  by (induction ks arbitrary: n w) simp_all

lemma FolderRepo_writes_folders [simp]:
  "World.folders (FolderRepo_updateName now i n w)
     = map (\<lambda>f. if Folder.id f = i then f\<lparr>Folder.name := n, Folder.updatedAt := now\<rparr> else f)
         (World.folders w)"
  "World.folders (FolderRepo_delete i w) = filter (\<lambda>f. Folder.id f \<noteq> i) (World.folders w)"
  "World.folders (snd (FolderRepo_deleteByDataroom r w))
     = filter (\<lambda>f. Folder.dataroomId f \<noteq> r) (World.folders w)"
  by (simp_all add: FolderRepo_updateName_def FolderRepo_delete_def FolderRepo_deleteByDataroom_def)

lemma FolderRepo_writes_issued [simp]:
  "issued (FolderRepo_updateName now i n w) = issued w"
  "issued (FolderRepo_delete i w) = issued w"
  "issued (snd (FolderRepo_deleteByDataroom r w)) = issued w"
  by (simp_all add: FolderRepo_updateName_def FolderRepo_delete_def FolderRepo_deleteByDataroom_def)

lemma generateId_fields [simp]:
  "World.folders (generateId i w) = World.folders w"
  "issued (generateId i w) = insert i (issued w)"
  by (simp_all add: generateId_def)

lemma FileService_delete_folders [simp]:
  "World.folders (snd (FileService_delete now i w)) = World.folders w"
  by (simp add: FileService_delete_def split: sum.splits)

lemma FileService_delete_issued [simp]:
  "issued (snd (FileService_delete now i w)) = issued w"
  by (simp add: FileService_delete_def split: sum.splits)

text \<open>
  \<open>keepsFolders new w w'\<close>: from \<open>w\<close> to \<open>w'\<close> no folder was added and no parent link
  changed, and the ids issued on the way are among \<open>new\<close>.
\<close>

definition keepsFolders :: "ID set \<Rightarrow> World \<Rightarrow> World \<Rightarrow> bool" where
  "keepsFolders new w w' \<longleftrightarrow>
     issued w \<subseteq> issued w' \<and> issued w' \<subseteq> issued w \<union> new
     \<and> (\<forall>f' \<in> set (World.folders w').
           \<exists>f \<in> set (World.folders w). Folder.id f' = Folder.id f \<and> Folder.parentId f' = Folder.parentId f)"

lemma keepsFolders_same:
  "World.folders w' = World.folders w \<Longrightarrow> issued w' = issued w \<Longrightarrow> keepsFolders new w w'"
  by (auto simp: keepsFolders_def)

lemma DataroomService_create_keeps:
  "keepsFolders {newId} w (snd (DataroomService_create newName newId now w))"
  by (auto simp: DataroomService_create_def keepsFolders_def Let_def DataroomRepo_insert_def generateId_def
      split: sum.splits prod.splits if_splits)

lemma DataroomService_rename_keeps:
  "keepsFolders {} w (snd (DataroomService_rename i newName now w))"
  by (auto simp: DataroomService_rename_def Let_def intro!: keepsFolders_same split: sum.splits)

lemma DataroomService_delete_keeps:
  "keepsFolders {} w (snd (DataroomService_delete i w))"
  by (auto simp: DataroomService_delete_def Let_def keepsFolders_def case_prod_beta)

lemma DataroomService_touch_keeps:
  "keepsFolders {} w (snd (DataroomService_touch i now w))"
  by (simp add: DataroomService_touch_def keepsFolders_same)
lemma uploadCollision_keeps:
  "World.folders (snd (uploadCollision now n parent room action w)) = World.folders w
   \<and> issued (snd (uploadCollision now n parent room action w)) = issued w"
proof (cases action)
  case Replace
  then show ?thesis
  proof (cases "find (\<lambda>f. FileObject.name f = n) (FileRepo_listByParent w parent room)")
    case None
    with Replace show ?thesis by (simp add: uploadCollision_def)
  next
    case (Some existingFile)
    have "World.folders (snd (FileService_delete now (FileObject.id existingFile) w)) = World.folders w"
      "issued (snd (FileService_delete now (FileObject.id existingFile) w)) = issued w"
      by simp_all
    with Replace Some show ?thesis
      by (cases "FileService_delete now (FileObject.id existingFile) w")
         (auto simp: uploadCollision_def split: sum.splits)
  qed
qed (simp_all add: uploadCollision_def)

lemma renameCollision_keeps:
  "World.folders (snd (renameCollision now i n file action w)) = World.folders w
   \<and> issued (snd (renameCollision now i n file action w)) = issued w"
proof (cases action)
  case Replace
  let ?found = "find (\<lambda>f. FileObject.name f = n \<and> FileObject.id f \<noteq> i)
                  (FileRepo_listByParent w (FileObject.parentId file) (FileObject.dataroomId file))"
  show ?thesis
  proof (cases ?found)
    case None
    with Replace show ?thesis by (simp add: renameCollision_def)
  next
    case (Some existingFile)
    have "World.folders (snd (FileService_delete now (FileObject.id existingFile) w)) = World.folders w"
      "issued (snd (FileService_delete now (FileObject.id existingFile) w)) = issued w"
      by simp_all
    with Replace Some show ?thesis
      by (cases "FileService_delete now (FileObject.id existingFile) w")
         (auto simp: renameCollision_def split: sum.splits)
  qed
qed (simp_all add: renameCollision_def)

lemma FileService_upload_keeps:
  "keepsFolders {newBlobKey, newId} w
     (snd (FileService_upload file room parent action newBlobKey newId now w))"
proof -
  let ?n = "normalizeName (File.name file)"
  let ?c = "uploadCollision now ?n parent room action w"
  have c: "World.folders (snd ?c) = World.folders w" "issued (snd ?c) = issued w"
    using uploadCollision_keeps by simp_all
  show ?thesis
    using c
    by (cases ?c)
       (auto simp: FileService_upload_def Let_def keepsFolders_def FileRepo_insert_def
          split: sum.splits if_splits)
qed

lemma FileService_rename_keeps:
  "keepsFolders {} w (snd (FileService_rename i newName action now w))"
proof -
  have "World.folders (snd (FileService_rename i newName action now w)) = World.folders w
        \<and> issued (snd (FileService_rename i newName action now w)) = issued w"
  proof (cases "FileRepo_getRequired w i")
    case (Inl e)
    then show ?thesis by (simp add: FileService_rename_def Let_def split: sum.splits)
  next
    case (Inr fl)
    let ?c = "renameCollision now i (normalizeName newName) fl action w"
    have c: "World.folders (snd ?c) = World.folders w" "issued (snd ?c) = issued w"
      using renameCollision_keeps by simp_all
    show ?thesis
      using c Inr
      by (cases ?c) (auto simp: FileService_rename_def Let_def split: sum.splits if_splits)
  qed
  then show ?thesis by (simp add: keepsFolders_same)
qed

lemma FileService_delete_keeps:
  "keepsFolders {} w (snd (FileService_delete now i w))"
  by (simp add: keepsFolders_same)

lemma FileService_move_keeps:
  "keepsFolders {} w (snd (FileService_move i newParentId now w))"
  by (auto simp: FileService_move_def Let_def intro!: keepsFolders_same split: sum.splits)

lemma FolderService_rename_keeps:
  "keepsFolders {} w (snd (FolderService_rename i newName action now w))"
  by (auto simp: FolderService_rename_def Let_def keepsFolders_def split: sum.splits if_splits)

lemma FolderService_move_keeps:
  "keepsFolders {} w (snd (FolderService_move stack i newParentId now w))"
  by (auto simp: FolderService_move_def Let_def keepsFolders_def split: sum.splits if_splits)

lemma deleteFolderFiles_keeps:
  "World.folders (snd (deleteFolderFiles now fs n w)) = World.folders w
   \<and> issued (snd (deleteFolderFiles now fs n w)) = issued w"
proof (induction fs arbitrary: n w)
  case Nil
  show ?case by simp
next
  case (Cons fl fs)
  have d: "World.folders (snd (FileService_delete now (FileObject.id fl) w)) = World.folders w"
    "issued (snd (FileService_delete now (FileObject.id fl) w)) = issued w"
    by simp_all
  show ?case
    using d Cons.IH
    by (cases "FileService_delete now (FileObject.id fl) w") (auto split: sum.splits)
qed

lemma deleteAffectedFiles_keeps:
  "World.folders (snd (deleteAffectedFiles now ids allFiles n w)) = World.folders w
   \<and> issued (snd (deleteAffectedFiles now ids allFiles n w)) = issued w"
proof (induction ids arbitrary: n w)
  case Nil
  show ?case by simp
next
  case (Cons folderId ids)
  let ?d = "deleteFolderFiles now (filter (\<lambda>f. FileObject.parentId f = Some folderId) allFiles) n w"
  have d: "World.folders (snd ?d) = World.folders w" "issued (snd ?d) = issued w"
    using deleteFolderFiles_keeps by simp_all
  show ?case
    using d Cons.IH
    by (cases ?d) (auto split: sum.splits)
qed

lemma deleteFolders_keeps:
  "set (World.folders (snd (deleteFolders ids n w))) \<subseteq> set (World.folders w)
   \<and> issued (snd (deleteFolders ids n w)) = issued w"
proof (induction ids arbitrary: n w)
  case Nil
  show ?case by simp
next
  case (Cons i ids)
  from Cons.IH [of "n + 1" "FolderRepo_delete i w"] show ?case by auto
qed

lemma FolderService_delete_keeps:
  "keepsFolders {} w (snd (FolderService_delete stack i now w))"
proof -
  have "set (World.folders (snd (FolderService_delete stack i now w))) \<subseteq> set (World.folders w)
        \<and> issued (snd (FolderService_delete stack i now w)) = issued w"
  proof (cases "FolderRepo_getRequired w i")
    case (Inl e)
    then show ?thesis by (simp add: FolderService_delete_def)
  next
    case (Inr folder)
    let ?room = "Folder.dataroomId folder"
    show ?thesis
    proof (cases "getDescendantFolderIds stack i (FolderRepo_listByDataroom w ?room)")
      case None
      with Inr show ?thesis by (simp add: FolderService_delete_def Let_def)
    next
      case (Some ds)
      let ?a = "deleteAffectedFiles now (i # ds) (FileRepo_listByDataroom w ?room) 0 w"
      have a: "World.folders (snd ?a) = World.folders w" "issued (snd ?a) = issued w"
        by (rule deleteAffectedFiles_keeps [THEN conjunct1], rule deleteAffectedFiles_keeps [THEN conjunct2])
      obtain r w1 where aw: "?a = (r, w1)" by (cases ?a)
      show ?thesis
      proof (cases r)
        case (Inl e)
        with Inr Some aw a show ?thesis by (simp add: FolderService_delete_def Let_def)
      next
        case (Inr deletedFiles)
        obtain k w2 where fw: "deleteFolders (rev ds) 0 w1 = (k, w2)" by (cases "deleteFolders (rev ds) 0 w1")
        have "set (World.folders w2) \<subseteq> set (World.folders w1)" "issued w2 = issued w1"
          using deleteFolders_keeps [of "rev ds" 0 w1] fw by simp_all
        with \<open>FolderRepo_getRequired w i = Inr folder\<close> Some aw a Inr fw show ?thesis
          by (auto simp: FolderService_delete_def Let_def)
      qed
    qed
  qed
  then show ?thesis by (auto simp: keepsFolders_def)
qed
subsection \<open>The invariant: parents are older than their children\<close>

text \<open>
  \<open>linksRanked w\<close>: the empty string was never issued, every folder's id was issued, and the
  ids can be ranked so that a parent link leads to the empty string or to an issued id of
  lower rank.
\<close>

definition linksRanked :: "World \<Rightarrow> bool" where
  "linksRanked w \<longleftrightarrow>
     '''' \<notin> issued w
     \<and> (\<exists>rank :: ID \<Rightarrow> nat. \<forall>f \<in> set (World.folders w).
           Folder.id f \<in> issued w
           \<and> (\<forall>p. Folder.parentId f = Some p \<longrightarrow> p = '''' \<or> (p \<in> issued w \<and> rank p < rank (Folder.id f))))"

lemma linksRanked_empty: "linksRanked emptyWorld"
  by (simp add: linksRanked_def emptyWorld_def)

lemma linksRanked_keeps:
  assumes "linksRanked w" and "keepsFolders new w w'" and "'''' \<notin> new"
  shows "linksRanked w'"
proof -
  from assms(1) obtain rank :: "ID \<Rightarrow> nat" where
    e: "'''' \<notin> issued w"
    and r: "\<And>f. f \<in> set (World.folders w) \<Longrightarrow>
          Folder.id f \<in> issued w
          \<and> (\<forall>p. Folder.parentId f = Some p \<longrightarrow> p = '''' \<or> (p \<in> issued w \<and> rank p < rank (Folder.id f)))"
    unfolding linksRanked_def by blast
  from assms(2) have sub: "issued w \<subseteq> issued w'" and sup: "issued w' \<subseteq> issued w \<union> new"
    and old: "\<And>f'. f' \<in> set (World.folders w') \<Longrightarrow>
          \<exists>f \<in> set (World.folders w). Folder.id f' = Folder.id f \<and> Folder.parentId f' = Folder.parentId f"
    unfolding keepsFolders_def by blast+
  have "'''' \<notin> issued w'" using e sup assms(3) by blast
  moreover have "Folder.id f' \<in> issued w'
      \<and> (\<forall>p. Folder.parentId f' = Some p \<longrightarrow> p = '''' \<or> (p \<in> issued w' \<and> rank p < rank (Folder.id f')))"
    if "f' \<in> set (World.folders w')" for f'
  proof -
    from old [OF that] obtain f where f: "f \<in> set (World.folders w)"
      "Folder.id f' = Folder.id f" "Folder.parentId f' = Folder.parentId f" by blast
    from r [OF f(1)] f(2,3) sub show ?thesis by auto
  qed
  ultimately show ?thesis unfolding linksRanked_def by blast
qed

lemma verifyParentFolder_ok:
  assumes "verifyParentFolder w parent = Inr ()"
  shows "parent = None \<or> parent = Some '''' \<or> (\<exists>p \<in> set (World.folders w). parent = Some (Folder.id p))"
proof (cases parent)
  case None
  then show ?thesis by simp
next
  case (Some p)
  show ?thesis
  proof (cases "p = ''''")
    case True
    with Some show ?thesis by simp
  next
    case False
    with assms Some obtain folder where "find (\<lambda>f. Folder.id f = p) (World.folders w) = Some folder"
      by (auto simp: verifyParentFolder_def FolderRepo_getRequired_def FolderRepo_get_def
          split: option.splits)
    then have "folder \<in> set (World.folders w)" "Folder.id folder = p"
      by (auto simp: find_Some_iff)
    with Some show ?thesis by blast
  qed
qed

lemma FolderService_create_effect:
  "keepsFolders {newId} w (snd (FolderService_create newName room parent action newId now w))
   \<or> (\<exists>folder.
         Folder.id folder = newId
         \<and> (Folder.parentId folder = None \<or> Folder.parentId folder = Some ''''
              \<or> (\<exists>p \<in> set (World.folders w). Folder.parentId folder = Some (Folder.id p)))
         \<and> set (World.folders (snd (FolderService_create newName room parent action newId now w)))
             = insert folder (set (World.folders w))
         \<and> issued (snd (FolderService_create newName room parent action newId now w))
             = insert newId (issued w))"
proof -
  let ?w' = "snd (FolderService_create newName room parent action newId now w)"
  let ?n = "normalizeName newName"
  let ?coll = "if FolderRepo_nameExistsInParent w ?n parent room None
            then folderCollision ''create folder'' ?n action
                   (fset_of_list (map Folder.name (FolderRepo_listByParent w parent room)))
            else Inr ?n"
  have shape: "?w' = w
      \<or> (\<exists>final. verifyParentFolder w parent = Inr ()
            \<and> ?w' = snd (case FolderRepo_insert \<lparr>Folder.id = newId, dataroomId = room, parentId = parent,
                        name = final, createdAt = now, updatedAt = now\<rparr> (generateId newId w) of
                (Inl e, w1) \<Rightarrow> (Inl e, w1)
              | (Inr u, w1) \<Rightarrow> (Inr \<lparr>Folder.id = newId, dataroomId = room, parentId = parent,
                        name = final, createdAt = now, updatedAt = now\<rparr>, DataroomRepo_touch now room w1)))"
  proof (cases "validateName ?n FolderKind")
    case Inl
    then show ?thesis by (simp add: FolderService_create_def Let_def)
  next
    case v: (Inr u)
    show ?thesis
    proof (cases "DataroomRepo_getRequired w room")
      case Inl
      with v show ?thesis by (simp add: FolderService_create_def Let_def)
    next
      case d: (Inr dr)
      show ?thesis
      proof (cases "verifyParentFolder w parent")
        case Inl
        with v d show ?thesis by (simp add: FolderService_create_def Let_def)
      next
        case p: (Inr u')
        show ?thesis
        proof (cases ?coll)
          case Inl
          with v d p show ?thesis by (simp add: FolderService_create_def Let_def)
        next
          case (Inr final)
          with v d p have "?w' = snd (case FolderRepo_insert \<lparr>Folder.id = newId, dataroomId = room, parentId = parent,
                        name = final, createdAt = now, updatedAt = now\<rparr> (generateId newId w) of
                (Inl e, w1) \<Rightarrow> (Inl e, w1)
              | (Inr u, w1) \<Rightarrow> (Inr \<lparr>Folder.id = newId, dataroomId = room, parentId = parent,
                        name = final, createdAt = now, updatedAt = now\<rparr>, DataroomRepo_touch now room w1))"
            by (simp add: FolderService_create_def Let_def)
          moreover from p have "verifyParentFolder w parent = Inr ()" by simp
          ultimately show ?thesis by blast
        qed
      qed
    qed
  qed
  then consider (stop) "?w' = w"
    | (go) final where "verifyParentFolder w parent = Inr ()"
        "?w' = snd (case FolderRepo_insert \<lparr>Folder.id = newId, dataroomId = room, parentId = parent,
                        name = final, createdAt = now, updatedAt = now\<rparr> (generateId newId w) of
                (Inl e, w1) \<Rightarrow> (Inl e, w1)
              | (Inr u, w1) \<Rightarrow> (Inr \<lparr>Folder.id = newId, dataroomId = room, parentId = parent,
                        name = final, createdAt = now, updatedAt = now\<rparr>, DataroomRepo_touch now room w1))"
    by blast
  then show ?thesis
  proof cases
    case stop
    then show ?thesis by (simp add: keepsFolders_same)
  next
    case go
    let ?folder = "\<lparr>Folder.id = newId, dataroomId = room, parentId = parent,
                        name = final, createdAt = now, updatedAt = now\<rparr>"
    show ?thesis
    proof (cases "\<exists>f \<in> set (World.folders w). Folder.id f = newId")
      case True
      with go(2) have "World.folders ?w' = World.folders w" "issued ?w' = insert newId (issued w)"
        by (simp_all add: FolderRepo_insert_def)
      then have "keepsFolders {newId} w ?w'" by (auto simp: keepsFolders_def)
      then show ?thesis by blast
    next
      case False
      with go(2) have "set (World.folders ?w') = insert ?folder (set (World.folders w))"
        "issued ?w' = insert newId (issued w)"
        by (simp_all add: FolderRepo_insert_def generateId_def DataroomRepo_touch_def set_insort_key)
      moreover have "Folder.id ?folder = newId" by simp
      moreover have "Folder.parentId ?folder = None \<or> Folder.parentId ?folder = Some ''''
              \<or> (\<exists>p \<in> set (World.folders w). Folder.parentId ?folder = Some (Folder.id p))"
        using verifyParentFolder_ok [OF go(1)] by simp
      ultimately show ?thesis by blast
    qed
  qed
qed

lemma linksRanked_create:
  assumes inv: "linksRanked w" and fr: "fresh newId w"
    and folder: "Folder.id folder = newId"
      "Folder.parentId folder = None \<or> Folder.parentId folder = Some ''''
         \<or> (\<exists>p \<in> set (World.folders w). Folder.parentId folder = Some (Folder.id p))"
    and fs: "set (World.folders w') = insert folder (set (World.folders w))"
    and iss: "issued w' = insert newId (issued w)"
  shows "linksRanked w'"
proof -
  from inv obtain rank :: "ID \<Rightarrow> nat" where
    e: "'''' \<notin> issued w"
    and r: "\<And>f. f \<in> set (World.folders w) \<Longrightarrow>
          Folder.id f \<in> issued w
          \<and> (\<forall>p. Folder.parentId f = Some p \<longrightarrow> p = '''' \<or> (p \<in> issued w \<and> rank p < rank (Folder.id f)))"
    unfolding linksRanked_def by blast
  from fr have new: "newId \<noteq> ''''" "newId \<notin> issued w" by (simp_all add: fresh_def)
  define top where "top = (case Folder.parentId folder of None \<Rightarrow> 0 | Some p \<Rightarrow> Suc (rank p))"
  define rank' where "rank' = rank(newId := top)"
  have same: "rank' x = rank x" if "x \<in> issued w" for x
    using that new(2) by (auto simp: rank'_def)
  have "'''' \<notin> issued w'" using e new(1) iss by simp
  moreover have "Folder.id f \<in> issued w'
      \<and> (\<forall>p. Folder.parentId f = Some p \<longrightarrow> p = '''' \<or> (p \<in> issued w' \<and> rank' p < rank' (Folder.id f)))"
    if "f \<in> set (World.folders w')" for f
  proof (cases "f = folder")
    case True
    have "p = '''' \<or> (p \<in> issued w' \<and> rank' p < rank' newId)" if p: "Folder.parentId folder = Some p" for p
    proof (cases "p = ''''")
      case True
      then show ?thesis by simp
    next
      case False
      with folder(2) p obtain q where q: "q \<in> set (World.folders w)" "p = Folder.id q" by auto
      then have "p \<in> issued w" using r by blast
      moreover have "rank' newId = Suc (rank p)" by (simp add: rank'_def top_def p)
      ultimately show ?thesis using same iss by simp
    qed
    with True folder(1) iss show ?thesis by simp
  next
    case False
    with that fs have old: "f \<in> set (World.folders w)" by auto
    from r [OF old] same iss show ?thesis by auto
  qed
  ultimately show ?thesis unfolding linksRanked_def by blast
qed

lemma reachable_linksRanked: "reachable w \<Longrightarrow> linksRanked w"
proof (induction rule: reachable.induct)
  case start
  show ?case by (rule linksRanked_empty)
next
  case (dataroom_create w newId newName now)
  then show ?case
    by (intro linksRanked_keeps [OF _ DataroomService_create_keeps]) (auto simp: fresh_def)
next
  case (dataroom_rename w i newName now)
  then show ?case by (intro linksRanked_keeps [OF _ DataroomService_rename_keeps]) simp_all
next
  case (dataroom_delete w i)
  then show ?case by (intro linksRanked_keeps [OF _ DataroomService_delete_keeps]) simp_all
next
  case (dataroom_touch w i now)
  then show ?case by (intro linksRanked_keeps [OF _ DataroomService_touch_keeps]) simp_all
next
  case (folder_create w newId newName room parent action now)
  from FolderService_create_effect [of newId w newName room parent action now] show ?case
  proof
    assume k: "keepsFolders {newId} w (snd (FolderService_create newName room parent action newId now w))"
    from folder_create.hyps(2) have "'''' \<notin> {newId}" by (auto simp: fresh_def)
    with folder_create.IH k show ?thesis by (rule linksRanked_keeps)
  next
    assume "\<exists>folder.
         Folder.id folder = newId
         \<and> (Folder.parentId folder = None \<or> Folder.parentId folder = Some ''''
              \<or> (\<exists>p \<in> set (World.folders w). Folder.parentId folder = Some (Folder.id p)))
         \<and> set (World.folders (snd (FolderService_create newName room parent action newId now w)))
             = insert folder (set (World.folders w))
         \<and> issued (snd (FolderService_create newName room parent action newId now w))
             = insert newId (issued w)"
    then obtain folder where f: "Folder.id folder = newId"
      "Folder.parentId folder = None \<or> Folder.parentId folder = Some ''''
              \<or> (\<exists>p \<in> set (World.folders w). Folder.parentId folder = Some (Folder.id p))"
      "set (World.folders (snd (FolderService_create newName room parent action newId now w)))
             = insert folder (set (World.folders w))"
      "issued (snd (FolderService_create newName room parent action newId now w))
             = insert newId (issued w)"
      by blast
    show ?thesis by (rule linksRanked_create [OF folder_create.IH folder_create.hyps(2) f])
  qed
next
  case (folder_rename w i newName action now)
  then show ?case by (intro linksRanked_keeps [OF _ FolderService_rename_keeps]) simp_all
next
  case (folder_delete w stack i now)
  then show ?case by (intro linksRanked_keeps [OF _ FolderService_delete_keeps]) simp_all
next
  case (folder_move w stack i newParentId now)
  then show ?case by (intro linksRanked_keeps [OF _ FolderService_move_keeps]) simp_all
next
  case (file_upload w newBlobKey newId fl room parent action now)
  then show ?case
    by (intro linksRanked_keeps [OF _ FileService_upload_keeps]) (auto simp: fresh_def)
next
  case (file_rename w i newName action now)
  then show ?case by (intro linksRanked_keeps [OF _ FileService_rename_keeps]) simp_all
next
  case (file_delete w now i)
  then show ?case by (intro linksRanked_keeps [OF _ FileService_delete_keeps]) simp_all
next
  case (file_move w i newParentId now)
  then show ?case by (intro linksRanked_keeps [OF _ FileService_move_keeps]) simp_all
qed

lemma linksRanked_no_cycle:
  assumes "linksRanked w"
  shows "(x, x) \<notin> (parentLinks w)\<^sup>+"
proof -
  from assms obtain rank :: "ID \<Rightarrow> nat" where
    e: "'''' \<notin> issued w"
    and r: "\<And>f. f \<in> set (World.folders w) \<Longrightarrow>
          Folder.id f \<in> issued w
          \<and> (\<forall>p. Folder.parentId f = Some p \<longrightarrow> p = '''' \<or> (p \<in> issued w \<and> rank p < rank (Folder.id f)))"
    unfolding linksRanked_def by blast
  define m where "m x = (if x \<in> issued w then Suc (rank x) else 0)" for x
  have step: "m p < m c" if "(c, p) \<in> parentLinks w" for c p
  proof -
    from that obtain f where f: "f \<in> set (World.folders w)" "c = Folder.id f" "Folder.parentId f = Some p"
      by (auto simp: parentLinks_def)
    from r [OF f(1)] f(2,3) e show ?thesis by (auto simp: m_def)
  qed
  have "m p < m c" if "(c, p) \<in> (parentLinks w)\<^sup>+" for c p
    using that by (induction rule: trancl.induct) (auto dest: step intro: less_trans)
  then show ?thesis by blast
qed

text \<open>
  Claim C8. In every store reachable from the empty store by operations of the three
  services, no folder is its own ancestor: the parent links that start at a folder never
  lead back to it.
\<close>

theorem reachable_no_folder_is_own_ancestor:
  assumes "reachable w" and "f \<in> set (World.folders w)"
  shows "(Folder.id f, Folder.id f) \<notin> (parentLinks w)\<^sup>+"
  using assms(1) by (intro linksRanked_no_cycle reachable_linksRanked)
text \<open>
  The sample store is reachable: create the room, folder \<open>A\<close>, folder \<open>B\<close> in \<open>A\<close>, and upload
  the file into \<open>B\<close>.
\<close>

lemma sampleWorld_reachable: "reachable sampleWorld"
proof -
  define w1 where "w1 = snd (DataroomService_create ''Acme'' ''r1'' 1 emptyWorld)"
  define w2 where "w2 = snd (FolderService_create ''A'' ''r1'' None KeepBoth ''fa'' 2 w1)"
  define w3 where "w3 = snd (FolderService_create ''B'' ''r1'' (Some ''fa'') KeepBoth ''fb'' 3 w2)"
  define w4 where "w4 = snd (FileService_upload pdfFile ''r1'' (Some ''fb'') KeepBoth ''k1'' ''l1'' 4 w3)"
  have names: "normalizeName ''Acme'' = ''Acme''" "normalizeName ''A'' = ''A''"
    "normalizeName ''B'' = ''B''" "normalizeName ''q1.pdf'' = ''q1.pdf''"
    by code_simp+
  have valid: "validateName ''Acme'' FolderKind = Inr ()" "validateName ''A'' FolderKind = Inr ()"
    "validateName ''B'' FolderKind = Inr ()" "validateName ''q1.pdf'' FileKind = Inr ()"
    by code_simp+
  have e1: "w1 = \<lparr>datarooms = [\<lparr>Dataroom.id = ''r1'', name = ''Acme'', createdAt = 1, updatedAt = 1\<rparr>],
                  folders = [], files = [], blobs = [], issued = {''r1''}\<rparr>"
    by (simp add: w1_def DataroomService_create_def emptyWorld_def names valid Let_def
        resolveDataroomNameCollision_def resolveNameCollision_def DataroomRepo_list_def
        DataroomRepo_insert_def generateId_def)
  have e2: "w2 = \<lparr>datarooms = [\<lparr>Dataroom.id = ''r1'', name = ''Acme'', createdAt = 1, updatedAt = 2\<rparr>],
                  folders = [\<lparr>Folder.id = ''fa'', dataroomId = ''r1'', parentId = None, name = ''A'',
                              createdAt = 2, updatedAt = 2\<rparr>],
                  files = [], blobs = [], issued = {''fa'', ''r1''}\<rparr>"
    by (simp add: w2_def e1 FolderService_create_def names valid Let_def
        DataroomRepo_getRequired_def DataroomRepo_get_def verifyParentFolder_def
        FolderRepo_nameExistsInParent_def FolderRepo_listByParent_def
        FolderRepo_insert_def generateId_def DataroomRepo_touch_def)
  have e3: "w3 = \<lparr>datarooms = [\<lparr>Dataroom.id = ''r1'', name = ''Acme'', createdAt = 1, updatedAt = 3\<rparr>],
                  folders = [\<lparr>Folder.id = ''fa'', dataroomId = ''r1'', parentId = None, name = ''A'',
                              createdAt = 2, updatedAt = 2\<rparr>,
                             \<lparr>Folder.id = ''fb'', dataroomId = ''r1'', parentId = Some ''fa'', name = ''B'',
                              createdAt = 3, updatedAt = 3\<rparr>],
                  files = [], blobs = [], issued = {''fb'', ''fa'', ''r1''}\<rparr>"
    by (simp add: w3_def e2 FolderService_create_def names valid Let_def
        DataroomRepo_getRequired_def DataroomRepo_get_def verifyParentFolder_def
        FolderRepo_getRequired_def FolderRepo_get_def
        FolderRepo_nameExistsInParent_def FolderRepo_listByParent_def
        FolderRepo_insert_def generateId_def DataroomRepo_touch_def)
  have e4: "w4 = sampleWorld"
    by (auto simp: w4_def e3 FileService_upload_def names valid Let_def pdfFile_def sampleWorld_def
        DataroomRepo_getRequired_def DataroomRepo_get_def verifyParentFolder_def
        FolderRepo_getRequired_def FolderRepo_get_def
        FileRepo_nameExistsInParent_def FileRepo_listByParent_def
        BlobRepo_put_def FileRepo_insert_def generateId_def DataroomRepo_touch_def)
  have "reachable w1"
    unfolding w1_def by (intro reachable.dataroom_create reachable.start) (simp add: fresh_def emptyWorld_def)
  then have "reachable w2"
    unfolding w2_def by (rule reachable.folder_create) (simp add: fresh_def e1)
  then have "reachable w3"
    unfolding w3_def by (rule reachable.folder_create) (simp add: fresh_def e2)
  then have "reachable w4"
    unfolding w4_def by (rule reachable.file_upload) (simp_all add: fresh_def e3)
  with e4 show ?thesis by simp
qed

text \<open>The theorem at the sample store and its folder \<open>B\<close>, which lies in \<open>A\<close>.\<close>

theorem reachable_no_folder_is_own_ancestor_witness:
  "reachable sampleWorld
   \<and> \<lparr>Folder.id = ''fb'', dataroomId = ''r1'', parentId = Some ''fa'', name = ''B'',
        createdAt = 3, updatedAt = 3\<rparr> \<in> set (World.folders sampleWorld)
   \<and> (''fb'', ''fb'') \<notin> (parentLinks sampleWorld)\<^sup>+"
proof -
  have m: "\<lparr>Folder.id = ''fb'', dataroomId = ''r1'', parentId = Some ''fa'', name = ''B'',
        createdAt = 3, updatedAt = 3\<rparr> \<in> set (World.folders sampleWorld)"
    by (simp add: sampleWorld_def)
  from reachable_no_folder_is_own_ancestor [OF sampleWorld_reachable m] sampleWorld_reachable m
  show ?thesis by simp
qed

section \<open>The cascade of FolderService.delete\<close>

subsection \<open>What getDescendantFolderIds returns\<close>

text \<open>The parent links of a list of folders, and the child folders of a folder.\<close>

definition linksOf :: "Folder list \<Rightarrow> (ID \<times> ID) set" where
  "linksOf fs = {(Folder.id f, p) | f p. f \<in> set fs \<and> Folder.parentId f = Some p}"

lemma parentLinks_linksOf: "parentLinks w = linksOf (World.folders w)"
  by (simp add: parentLinks_def linksOf_def)

lemma descend_fold_None:
  "fold (\<lambda>childFolder descendants.
           case descendants of
             None \<Rightarrow> None
           | Some ds \<Rightarrow> (case g childFolder of None \<Rightarrow> None
                         | Some sub \<Rightarrow> Some (ds @ [Folder.id childFolder] @ sub)))
        chs None = None"
  by (induction chs) simp_all

lemma descend_fold:
  "fold (\<lambda>childFolder descendants.
           case descendants of
             None \<Rightarrow> None
           | Some ds \<Rightarrow> (case g childFolder of None \<Rightarrow> None
                         | Some sub \<Rightarrow> Some (ds @ [Folder.id childFolder] @ sub)))
        chs (Some acc)
   = (if \<forall>ch \<in> set chs. g ch \<noteq> None
      then Some (acc @ concat (map (\<lambda>ch. Folder.id ch # the (g ch)) chs))
      else None)"
proof (induction chs arbitrary: acc)
  case Nil
  show ?case by simp
next
  case (Cons ch chs)
  show ?case
  proof (cases "g ch")
    case None
    then show ?thesis by (simp add: descend_fold_None)
  next
    case (Some sub)
    then show ?thesis by (simp add: Cons.IH)
  qed
qed

lemma getDescendantFolderIds_Suc:
  "getDescendantFolderIds (Suc n) x fs
   = (if \<forall>ch \<in> set (filter (\<lambda>f. Folder.parentId f = Some x) fs).
            getDescendantFolderIds n (Folder.id ch) fs \<noteq> None
      then Some (concat (map (\<lambda>ch. Folder.id ch # the (getDescendantFolderIds n (Folder.id ch) fs))
                          (filter (\<lambda>f. Folder.parentId f = Some x) fs)))
      else None)"
  by (simp add: descend_fold del: set_filter)

lemma descendants_unfold:
  "{y. (y, x) \<in> (linksOf fs)\<^sup>+}
   = (\<Union>ch \<in> set (filter (\<lambda>f. Folder.parentId f = Some x) fs).
        insert (Folder.id ch) {y. (y, Folder.id ch) \<in> (linksOf fs)\<^sup>+})"
proof -
  have link: "(z, x) \<in> linksOf fs \<longleftrightarrow> (\<exists>ch \<in> set (filter (\<lambda>f. Folder.parentId f = Some x) fs). z = Folder.id ch)" for z
    by (auto simp: linksOf_def)
  have "(y, x) \<in> (linksOf fs)\<^sup>+ \<longleftrightarrow> (\<exists>z. (y, z) \<in> (linksOf fs)\<^sup>* \<and> (z, x) \<in> linksOf fs)" for y
    by (metis rtrancl_into_trancl1 tranclE trancl_into_rtrancl rtrancl.rtrancl_refl)
  then show ?thesis
    by (auto simp: link rtrancl_eq_or_trancl)
qed

lemma getDescendantFolderIds_set:
  "getDescendantFolderIds n x fs = Some ds \<Longrightarrow> set ds = {y. (y, x) \<in> (linksOf fs)\<^sup>+}"
proof (induction n arbitrary: x ds)
  case 0
  then show ?case by simp
next
  case (Suc n)
  let ?chs = "filter (\<lambda>f. Folder.parentId f = Some x) fs"
  from Suc.prems [unfolded getDescendantFolderIds_Suc] have ok: "\<forall>ch \<in> set ?chs. getDescendantFolderIds n (Folder.id ch) fs \<noteq> None"
    and ds: "ds = concat (map (\<lambda>ch. Folder.id ch # the (getDescendantFolderIds n (Folder.id ch) fs)) ?chs)"
    by (simp_all del: set_filter split: if_splits)
  have sub: "set (the (getDescendantFolderIds n (Folder.id ch) fs)) = {y. (y, Folder.id ch) \<in> (linksOf fs)\<^sup>+}"
    if "ch \<in> set ?chs" for ch
  proof -
    from ok that obtain s where "getDescendantFolderIds n (Folder.id ch) fs = Some s" by blast
    with Suc.IH show ?thesis by simp
  qed
  have "set ds = (\<Union>ch \<in> set ?chs. insert (Folder.id ch) (set (the (getDescendantFolderIds n (Folder.id ch) fs))))"
    by (simp add: ds del: set_filter)
  also have "\<dots> = (\<Union>ch \<in> set ?chs. insert (Folder.id ch) {y. (y, Folder.id ch) \<in> (linksOf fs)\<^sup>+})"
    using sub by simp
  also have "\<dots> = {y. (y, x) \<in> (linksOf fs)\<^sup>+}"
    by (rule descendants_unfold [symmetric])
  finally show ?case .
qed
lemma linksOf_single_valued:
  assumes "distinct (map Folder.id fs)"
  shows "single_valued (linksOf fs)"
proof (rule single_valuedI)
  fix a p q assume "(a, p) \<in> linksOf fs" "(a, q) \<in> linksOf fs"
  then obtain f g where f: "f \<in> set fs" "Folder.id f = a" "Folder.parentId f = Some p"
    and g: "g \<in> set fs" "Folder.id g = a" "Folder.parentId g = Some q"
    by (auto simp: linksOf_def)
  from assms have "inj_on Folder.id (set fs)" by (simp add: distinct_map)
  with f(1,2) g(1,2) have "f = g" by (auto dest: inj_onD)
  with f(3) g(3) show "p = q" by simp
qed

lemma siblings_disjoint:
  assumes sv: "single_valued (linksOf fs)"
    and acyc: "\<And>y. (y, y) \<notin> (linksOf fs)\<^sup>+"
    and c1: "(c1, x) \<in> linksOf fs" and c2: "(c2, x) \<in> linksOf fs" and ne: "c1 \<noteq> c2"
    and y1: "(y, c1) \<in> (linksOf fs)\<^sup>*" and y2: "(y, c2) \<in> (linksOf fs)\<^sup>*"
  shows False
proof -
  have below: False if a: "(a, x) \<in> linksOf fs" and b: "(b, x) \<in> linksOf fs" and "a \<noteq> b"
    and ab: "(a, b) \<in> (linksOf fs)\<^sup>*" for a b
  proof -
    from ab \<open>a \<noteq> b\<close> have "(a, b) \<in> (linksOf fs)\<^sup>+" by (simp add: rtrancl_eq_or_trancl)
    then obtain z where z: "(a, z) \<in> linksOf fs" "(z, b) \<in> (linksOf fs)\<^sup>*" by (blast dest: tranclD)
    from sv a z(1) have "z = x" by (blast dest: single_valuedD)
    with z(2) b have "(b, b) \<in> (linksOf fs)\<^sup>+" by (blast intro: rtrancl_into_trancl2)
    with acyc show False by blast
  qed
  from single_valued_confluent [OF sv y1 y2] show False
    using below [OF c1 c2 ne] below [OF c2 c1 ne [symmetric]] by blast
qed

lemma getDescendantFolderIds_distinct:
  assumes d: "distinct (map Folder.id fs)"
    and acyc: "\<And>y. (y, y) \<notin> (linksOf fs)\<^sup>+"
  shows "getDescendantFolderIds n x fs = Some ds \<Longrightarrow> distinct ds"
proof (induction n arbitrary: x ds)
  case 0
  then show ?case by simp
next
  case (Suc n)
  let ?chs = "filter (\<lambda>f. Folder.parentId f = Some x) fs"
  let ?sub = "\<lambda>ch. the (getDescendantFolderIds n (Folder.id ch) fs)"
  from Suc.prems [unfolded getDescendantFolderIds_Suc]
  have ok: "\<forall>ch \<in> set ?chs. getDescendantFolderIds n (Folder.id ch) fs \<noteq> None"
    and ds: "ds = concat (map (\<lambda>ch. Folder.id ch # ?sub ch) ?chs)"
    by (simp_all del: set_filter split: if_splits)
  have some: "getDescendantFolderIds n (Folder.id ch) fs = Some (?sub ch)" if "ch \<in> set ?chs" for ch
    using ok that by auto
  have subset: "set (?sub ch) = {y. (y, Folder.id ch) \<in> (linksOf fs)\<^sup>+}" if "ch \<in> set ?chs" for ch
    using getDescendantFolderIds_set [OF some [OF that]] .
  have link: "(Folder.id ch, x) \<in> linksOf fs" if "ch \<in> set ?chs" for ch
    using that by (auto simp: linksOf_def)
  have sv: "single_valued (linksOf fs)" by (rule linksOf_single_valued [OF d])
  have dchs: "distinct (map Folder.id ?chs)" using d by (simp add: distinct_map_filter)
  have "distinct (concat (map (\<lambda>ch. Folder.id ch # ?sub ch) ?chs))"
  proof (rule distinct_concat)
    from dchs have "distinct (map hd (map (\<lambda>ch. Folder.id ch # ?sub ch) ?chs))"
      by (simp add: comp_def)
    then show "distinct (map (\<lambda>ch. Folder.id ch # ?sub ch) ?chs)" by (simp only: distinct_map)
  next
    fix ys assume "ys \<in> set (map (\<lambda>ch. Folder.id ch # ?sub ch) ?chs)"
    then obtain ch where ch: "ch \<in> set ?chs" "ys = Folder.id ch # ?sub ch" by auto
    have "distinct (?sub ch)" using Suc.IH [OF some [OF ch(1)]] .
    moreover have "Folder.id ch \<notin> set (?sub ch)" using subset [OF ch(1)] acyc by simp
    ultimately show "distinct ys" by (simp add: ch(2))
  next
    fix ys zs
    assume "ys \<in> set (map (\<lambda>ch. Folder.id ch # ?sub ch) ?chs)"
      "zs \<in> set (map (\<lambda>ch. Folder.id ch # ?sub ch) ?chs)" "ys \<noteq> zs"
    then obtain c1 c2 where c: "c1 \<in> set ?chs" "ys = Folder.id c1 # ?sub c1"
      "c2 \<in> set ?chs" "zs = Folder.id c2 # ?sub c2" "c1 \<noteq> c2"
      by auto
    from dchs c(1,3,5) have ne: "Folder.id c1 \<noteq> Folder.id c2"
      by (auto simp: distinct_map dest: inj_onD)
    show "set ys \<inter> set zs = {}"
    proof (rule ccontr)
      assume "set ys \<inter> set zs \<noteq> {}"
      then obtain y where "y \<in> set ys" "y \<in> set zs" by blast
      then have "(y, Folder.id c1) \<in> (linksOf fs)\<^sup>*" "(y, Folder.id c2) \<in> (linksOf fs)\<^sup>*"
        using subset [OF c(1)] subset [OF c(3)] by (auto simp: c(2,4) rtrancl_eq_or_trancl)
      from siblings_disjoint [OF sv acyc link [OF c(1)] link [OF c(3)] ne this] show False .
    qed
  qed
  then show ?case by (simp only: ds)
qed

text \<open>
  With no folder its own ancestor, a stack deeper than the number of folders is enough:
  each nested call has one more ancestor among the folders than its caller.
\<close>

lemma getDescendantFolderIds_returns_aux:
  assumes acyc: "\<And>y. (y, y) \<notin> (linksOf fs)\<^sup>+"
  shows "length fs < n + card {z \<in> Folder.id ` set fs. (x, z) \<in> (linksOf fs)\<^sup>*}
         \<Longrightarrow> getDescendantFolderIds n x fs \<noteq> None"
proof (induction n arbitrary: x)
  case 0
  have "card {z \<in> Folder.id ` set fs. (x, z) \<in> (linksOf fs)\<^sup>*} \<le> card (Folder.id ` set fs)"
    by (intro card_mono) auto
  also have "\<dots> \<le> length fs" by (metis card_image_le card_length le_trans List.finite_set)
  finally show ?case using 0 by simp
next
  case (Suc n)
  let ?A = "\<lambda>x. {z \<in> Folder.id ` set fs. (x, z) \<in> (linksOf fs)\<^sup>*}"
  have "getDescendantFolderIds n (Folder.id ch) fs \<noteq> None"
    if ch: "ch \<in> set (filter (\<lambda>f. Folder.parentId f = Some x) fs)" for ch
  proof (rule Suc.IH)
    from ch have link: "(Folder.id ch, x) \<in> linksOf fs" by (auto simp: linksOf_def)
    have notin: "Folder.id ch \<notin> ?A x"
    proof
      assume "Folder.id ch \<in> ?A x"
      then have "(x, Folder.id ch) \<in> (linksOf fs)\<^sup>*" by simp
      with link have "(Folder.id ch, Folder.id ch) \<in> (linksOf fs)\<^sup>+" by (rule rtrancl_into_trancl2)
      with acyc show False by blast
    qed
    have sub: "insert (Folder.id ch) (?A x) \<subseteq> ?A (Folder.id ch)"
      using link ch by (auto intro: converse_rtrancl_into_rtrancl)
    have "card (insert (Folder.id ch) (?A x)) \<le> card (?A (Folder.id ch))"
      by (rule card_mono [OF _ sub]) simp
    moreover have "card (insert (Folder.id ch) (?A x)) = Suc (card (?A x))"
      by (rule card_insert_disjoint [OF _ notin]) simp
    ultimately have "card (?A x) < card (?A (Folder.id ch))" by simp
    with Suc.prems show "length fs < n + card (?A (Folder.id ch))" by simp
  qed
  then show ?case unfolding getDescendantFolderIds_Suc by (simp del: set_filter)
qed

lemma getDescendantFolderIds_returns:
  assumes "\<And>y. (y, y) \<notin> (linksOf fs)\<^sup>+" and "length fs < n"
  shows "\<exists>ds. getDescendantFolderIds n x fs = Some ds"
  using getDescendantFolderIds_returns_aux [OF assms(1), of n x] assms(2) by auto
subsection \<open>What the loops of delete remove\<close>

lemma writes_files [simp]:
  "World.files (DataroomRepo_touch now i w) = World.files w"
  "World.files (BlobRepo_delete k w) = World.files w"
  "World.files (FolderRepo_delete i w) = World.files w"
  "World.files (FileRepo_delete i w) = filter (\<lambda>f. FileObject.id f \<noteq> i) (World.files w)"
  by (simp_all add: DataroomRepo_touch_def BlobRepo_delete_def FolderRepo_delete_def FileRepo_delete_def)

lemma writes_blobs [simp]:
  "World.blobs (DataroomRepo_touch now i w) = World.blobs w"
  "World.blobs (FileRepo_delete i w) = World.blobs w"
  "World.blobs (FolderRepo_delete i w) = World.blobs w"
  "World.blobs (BlobRepo_delete k w) = filter (\<lambda>b. DBBlob.key b \<noteq> k) (World.blobs w)"
  by (simp_all add: DataroomRepo_touch_def BlobRepo_delete_def FolderRepo_delete_def FileRepo_delete_def)

lemma find_distinct_key:
  "distinct (map k xs) \<Longrightarrow> x \<in> set xs \<Longrightarrow> find (\<lambda>y. k y = k x) xs = Some x"
  by (induction xs) (auto simp: image_iff)

lemma FileService_delete_existing:
  assumes "distinct (map FileObject.id (World.files w))" and "f \<in> set (World.files w)"
  shows "FileService_delete now (FileObject.id f) w
         = (Inr (), DataroomRepo_touch now (FileObject.dataroomId f)
                      (FileRepo_delete (FileObject.id f) (BlobRepo_delete (FileObject.blobKey f) w)))"
  using find_distinct_key [OF assms]
  by (simp add: FileService_delete_def FileRepo_getRequired_def FileRepo_get_def)

lemma deleteFolderFiles_removes:
  assumes "distinct (map FileObject.id (World.files w))"
    and "distinct (map FileObject.id fl)" and "set fl \<subseteq> set (World.files w)"
  shows "fst (deleteFolderFiles now fl n w) = Inr (n + length fl)
         \<and> World.files (snd (deleteFolderFiles now fl n w))
             = filter (\<lambda>f. FileObject.id f \<notin> FileObject.id ` set fl) (World.files w)
         \<and> World.blobs (snd (deleteFolderFiles now fl n w))
             = filter (\<lambda>b. DBBlob.key b \<notin> FileObject.blobKey ` set fl) (World.blobs w)"
  using assms
proof (induction fl arbitrary: n w)
  case Nil
  show ?case by simp
next
  case (Cons f fl)
  let ?w1 = "DataroomRepo_touch now (FileObject.dataroomId f)
               (FileRepo_delete (FileObject.id f) (BlobRepo_delete (FileObject.blobKey f) w))"
  from Cons.prems have del: "FileService_delete now (FileObject.id f) w = (Inr (), ?w1)"
    by (intro FileService_delete_existing) simp_all
  have d1: "distinct (map FileObject.id (World.files ?w1))"
    using Cons.prems(1) by (simp add: distinct_map_filter)
  have d2: "distinct (map FileObject.id fl)" using Cons.prems(2) by simp
  have sub: "set fl \<subseteq> set (World.files ?w1)"
    using Cons.prems(2,3) by (auto simp: image_iff)
  note IH = Cons.IH [OF d1 d2 sub, of "n + 1"]
  have step: "deleteFolderFiles now (f # fl) n w = deleteFolderFiles now fl (n + 1) ?w1"
    by (simp add: del)
  show ?case
    unfolding step using IH by (auto intro: filter_cong)
qed

lemma deleteFolderFiles_append:
  "deleteFolderFiles now (xs @ ys) n w
   = (case deleteFolderFiles now xs n w of
        (Inl e, w') \<Rightarrow> (Inl e, w')
      | (Inr m, w') \<Rightarrow> deleteFolderFiles now ys m w')"
proof (induction xs arbitrary: n w)
  case Nil
  show ?case by simp
next
  case (Cons x xs)
  show ?case
    by (cases "FileService_delete now (FileObject.id x) w")
       (auto simp: Cons.IH split: sum.splits)
qed

lemma deleteAffectedFiles_concat:
  "deleteAffectedFiles now ids allFiles n w
   = deleteFolderFiles now
       (concat (map (\<lambda>p. filter (\<lambda>f. FileObject.parentId f = Some p) allFiles) ids)) n w"
proof (induction ids arbitrary: n w)
  case Nil
  show ?case by simp
next
  case (Cons p ids)
  show ?case
    by (cases "deleteFolderFiles now (filter (\<lambda>f. FileObject.parentId f = Some p) allFiles) n w")
       (auto simp: deleteFolderFiles_append Cons.IH split: sum.splits)
qed

lemma affected_files_distinct:
  assumes "distinct ids" and "distinct allFiles"
  shows "distinct (concat (map (\<lambda>p. filter (\<lambda>f. FileObject.parentId f = Some p) allFiles) ids))"
  using assms(1) by (induction ids) (auto simp: assms(2))

lemma deleteFolders_removes:
  "fst (deleteFolders ids n w) = n + length ids
   \<and> World.folders (snd (deleteFolders ids n w))
       = filter (\<lambda>f. Folder.id f \<notin> set ids) (World.folders w)
   \<and> World.files (snd (deleteFolders ids n w)) = World.files w
   \<and> World.blobs (snd (deleteFolders ids n w)) = World.blobs w"
proof (induction ids arbitrary: n w)
  case Nil
  show ?case by simp
next
  case (Cons i ids)
  from Cons.IH [of "n + 1" "FolderRepo_delete i w"] show ?case
    by (auto intro: filter_cong)
qed

subsection \<open>Ids are the keys of their tables\<close>

text \<open>
  \<open>keyed w\<close>: no two folders of the store have the same id, and no two files. Dexie keeps
  it: \<open>add\<close> refuses a key that exists, and the other writes change or remove records.
\<close>

definition keyed :: "World \<Rightarrow> bool" where
  "keyed w \<longleftrightarrow>
     distinct (map Folder.id (World.folders w)) \<and> distinct (map FileObject.id (World.files w))"

lemma distinct_insort_new:
  "distinct (map k xs) \<Longrightarrow> k x \<notin> k ` set xs \<Longrightarrow> distinct (map k (insort_key k x xs))"
  by (induction xs) (auto simp: set_insort_key)

lemma other_writes_files [simp]:
  "World.files (DataroomRepo_updateName now i n w) = World.files w"
  "World.files (DataroomRepo_delete i w) = World.files w"
  "World.files (snd (DataroomRepo_insert d w)) = World.files w"
  "World.files (BlobRepo_put k b w) = World.files w"
  "World.files (generateId i w) = World.files w"
  "World.files (FolderRepo_updateName now i n w) = World.files w"
  "World.files (snd (FolderRepo_insert g w)) = World.files w"
  "World.files (snd (FolderRepo_deleteByDataroom r w)) = World.files w"
  "World.files (FileRepo_updateName now i n w)
     = map (\<lambda>f. if FileObject.id f = i then f\<lparr>FileObject.name := n, FileObject.updatedAt := now\<rparr> else f)
         (World.files w)"
  "World.files (snd (FileRepo_deleteByDataroom r w))
     = filter (\<lambda>f. FileObject.dataroomId f \<noteq> r) (World.files w)"
  by (simp_all add: DataroomRepo_updateName_def DataroomRepo_delete_def DataroomRepo_insert_def
      BlobRepo_put_def generateId_def FolderRepo_updateName_def FolderRepo_insert_def
      FolderRepo_deleteByDataroom_def FileRepo_updateName_def FileRepo_deleteByDataroom_def)

lemma BlobRepo_deleteMany_files [simp]:
  "World.files (snd (BlobRepo_deleteMany ks n w)) = World.files w"
  by (induction ks arbitrary: n w) simp_all

lemma keyed_writes [simp]:
  "keyed (DataroomRepo_touch now i w) = keyed w"
  "keyed (DataroomRepo_updateName now i n w) = keyed w"
  "keyed (DataroomRepo_delete i w) = keyed w"
  "keyed (snd (DataroomRepo_insert d w)) = keyed w"
  "keyed (BlobRepo_put k b w) = keyed w"
  "keyed (BlobRepo_delete k w) = keyed w"
  "keyed (snd (BlobRepo_deleteMany ks m w)) = keyed w"
  "keyed (generateId i w) = keyed w"
  by (simp_all add: keyed_def)

lemma keyed_updateName [simp]:
  "keyed (FolderRepo_updateName now i n w) = keyed w"
  "keyed (FileRepo_updateName now i n w) = keyed w"
proof -
  have e: "map Folder.id (World.folders (FolderRepo_updateName now i n w)) = map Folder.id (World.folders w)"
    by simp
  show "keyed (FolderRepo_updateName now i n w) = keyed w" unfolding keyed_def e by simp
  have e: "map FileObject.id (World.files (FileRepo_updateName now i n w)) = map FileObject.id (World.files w)"
    by simp
  show "keyed (FileRepo_updateName now i n w) = keyed w" unfolding keyed_def e by simp
qed

lemma keyed_removes:
  assumes "keyed w"
  shows "keyed (FolderRepo_delete i w)" and "keyed (FileRepo_delete i w)"
    and "keyed (snd (FolderRepo_deleteByDataroom r w))" and "keyed (snd (FileRepo_deleteByDataroom r w))"
  using assms by (simp_all add: keyed_def distinct_map_filter)

lemma keyed_inserts:
  assumes "keyed w"
  shows "keyed (snd (FolderRepo_insert g w))" and "keyed (snd (FileRepo_insert f w))"
proof -
  from assms have d: "distinct (map Folder.id (World.folders w))" "distinct (map FileObject.id (World.files w))"
    by (simp_all add: keyed_def)
  show "keyed (snd (FolderRepo_insert g w))"
  proof (cases "\<exists>f \<in> set (World.folders w). Folder.id f = Folder.id g")
    case True
    with assms show ?thesis by (simp add: FolderRepo_insert_def)
  next
    case False
    then have "Folder.id g \<notin> Folder.id ` set (World.folders w)" by auto
    from distinct_insort_new [OF d(1) this] False d(2) show ?thesis
      by (simp add: keyed_def FolderRepo_insert_def)
  qed
  show "keyed (snd (FileRepo_insert f w))"
  proof (cases "\<exists>f' \<in> set (World.files w). FileObject.id f' = FileObject.id f")
    case True
    with assms show ?thesis by (simp add: FileRepo_insert_def)
  next
    case False
    then have "FileObject.id f \<notin> FileObject.id ` set (World.files w)" by auto
    from distinct_insort_new [OF d(2) this] False d(1) show ?thesis
      by (simp add: keyed_def FileRepo_insert_def)
  qed
qed

lemma FileService_delete_keyed: "keyed w \<Longrightarrow> keyed (snd (FileService_delete now i w))"
  by (simp add: FileService_delete_def keyed_removes split: sum.splits)
lemma uploadCollision_keyed:
  assumes "keyed w"
  shows "keyed (snd (uploadCollision now n parent room action w))"
proof (cases action)
  case Replace
  then show ?thesis
  proof (cases "find (\<lambda>f. FileObject.name f = n) (FileRepo_listByParent w parent room)")
    case None
    with Replace assms show ?thesis by (simp add: uploadCollision_def)
  next
    case (Some existingFile)
    from assms have "keyed (snd (FileService_delete now (FileObject.id existingFile) w))"
      by (rule FileService_delete_keyed)
    with Replace Some show ?thesis
      by (cases "FileService_delete now (FileObject.id existingFile) w")
         (auto simp: uploadCollision_def split: sum.splits)
  qed
qed (simp_all add: uploadCollision_def assms)

lemma renameCollision_keyed:
  assumes "keyed w"
  shows "keyed (snd (renameCollision now i n fl action w))"
proof (cases action)
  case Replace
  let ?found = "find (\<lambda>f. FileObject.name f = n \<and> FileObject.id f \<noteq> i)
                  (FileRepo_listByParent w (FileObject.parentId fl) (FileObject.dataroomId fl))"
  show ?thesis
  proof (cases ?found)
    case None
    with Replace assms show ?thesis by (simp add: renameCollision_def)
  next
    case (Some existingFile)
    from assms have "keyed (snd (FileService_delete now (FileObject.id existingFile) w))"
      by (rule FileService_delete_keyed)
    with Replace Some show ?thesis
      by (cases "FileService_delete now (FileObject.id existingFile) w")
         (auto simp: renameCollision_def split: sum.splits)
  qed
qed (simp_all add: renameCollision_def assms)

lemma FileService_upload_keyed:
  assumes "keyed w"
  shows "keyed (snd (FileService_upload file room parent action newBlobKey newId now w))"
proof -
  let ?n = "normalizeName (File.name file)"
  let ?c = "uploadCollision now ?n parent room action w"
  have c: "keyed (snd ?c)" by (rule uploadCollision_keyed [OF assms])
  have ins: "keyed (snd (FileRepo_insert f (generateId newId (BlobRepo_put newBlobKey file (generateId newBlobKey w1)))))"
    if "keyed w1" for f w1
    by (rule keyed_inserts) (simp add: that)
  show ?thesis
  proof (cases ?c)
    case (Pair r w1)
    with c have k1: "keyed w1" by simp
    show ?thesis
    proof (cases "FileRepo_nameExistsInParent w ?n parent room None")
      case True
      show ?thesis
      proof (cases r)
        case (Inl e)
        with Pair True k1 assms show ?thesis
          by (simp add: FileService_upload_def Let_def split: sum.splits)
      next
        case (Inr final)
        let ?f = "\<lparr>FileObject.id = newId, dataroomId = room, parentId = parent,
                    name = final, mimeType = File.type file, size = File.size file,
                    blobKey = newBlobKey, createdAt = now, updatedAt = now\<rparr>"
        from ins [OF k1, of ?f] Inr Pair True assms show ?thesis
          by (cases "FileRepo_insert ?f (generateId newId (BlobRepo_put newBlobKey file (generateId newBlobKey w1)))")
             (auto simp: FileService_upload_def Let_def split: sum.splits)
      qed
    next
      case False
      let ?f = "\<lparr>FileObject.id = newId, dataroomId = room, parentId = parent,
                  name = ?n, mimeType = File.type file, size = File.size file,
                  blobKey = newBlobKey, createdAt = now, updatedAt = now\<rparr>"
      from ins [OF assms, of ?f] False assms show ?thesis
        by (cases "FileRepo_insert ?f (generateId newId (BlobRepo_put newBlobKey file (generateId newBlobKey w)))")
           (auto simp: FileService_upload_def Let_def split: sum.splits)
    qed
  qed
qed

lemma FileService_rename_keyed:
  assumes "keyed w"
  shows "keyed (snd (FileService_rename i newName action now w))"
proof (cases "FileRepo_getRequired w i")
  case (Inl e)
  with assms show ?thesis by (simp add: FileService_rename_def Let_def split: sum.splits)
next
  case (Inr fl)
  let ?c = "renameCollision now i (normalizeName newName) fl action w"
  have c: "keyed (snd ?c)" by (rule renameCollision_keyed [OF assms])
  show ?thesis
    using c Inr assms
    by (cases ?c) (auto simp: FileService_rename_def Let_def split: sum.splits if_splits)
qed

lemma FileService_move_keyed:
  "keyed w \<Longrightarrow> keyed (snd (FileService_move i newParentId now w))"
  by (auto simp: FileService_move_def Let_def split: sum.splits)

lemma FolderService_create_keyed:
  assumes "keyed w"
  shows "keyed (snd (FolderService_create newName room parent action newId now w))"
proof -
  have ins: "keyed (snd (FolderRepo_insert g (generateId newId w)))" for g
    by (rule keyed_inserts) (simp add: assms)
  have "keyed (snd (case FolderRepo_insert g (generateId newId w) of
                      (Inl e, w1) \<Rightarrow> (Inl e, w1)
                    | (Inr _, w1) \<Rightarrow> (Inr g, DataroomRepo_touch now room w1)))" for g
    using ins [of g] by (cases "FolderRepo_insert g (generateId newId w)") (auto split: sum.splits)
  with assms show ?thesis
    by (simp add: FolderService_create_def Let_def split: sum.splits)
qed

lemma FolderService_rename_keyed:
  "keyed w \<Longrightarrow> keyed (snd (FolderService_rename i newName action now w))"
  by (auto simp: FolderService_rename_def Let_def split: sum.splits if_splits)

lemma FolderService_move_keyed:
  "keyed w \<Longrightarrow> keyed (snd (FolderService_move stack i newParentId now w))"
  by (auto simp: FolderService_move_def Let_def split: sum.splits if_splits)

lemma deleteFolderFiles_keyed:
  "keyed w \<Longrightarrow> keyed (snd (deleteFolderFiles now fs n w))"
proof (induction fs arbitrary: n w)
  case Nil
  then show ?case by simp
next
  case (Cons fl fs)
  from Cons.prems have d: "keyed (snd (FileService_delete now (FileObject.id fl) w))"
    by (rule FileService_delete_keyed)
  show ?case
    using d Cons.IH
    by (cases "FileService_delete now (FileObject.id fl) w") (auto split: sum.splits)
qed

lemma deleteAffectedFiles_keyed:
  "keyed w \<Longrightarrow> keyed (snd (deleteAffectedFiles now ids allFiles n w))"
proof (induction ids arbitrary: n w)
  case Nil
  then show ?case by simp
next
  case (Cons folderId ids)
  let ?d = "deleteFolderFiles now (filter (\<lambda>f. FileObject.parentId f = Some folderId) allFiles) n w"
  from Cons.prems have d: "keyed (snd ?d)" by (rule deleteFolderFiles_keyed)
  show ?case
    using d Cons.IH
    by (cases ?d) (auto split: sum.splits)
qed

lemma deleteFolders_keyed:
  "keyed w \<Longrightarrow> keyed (snd (deleteFolders ids n w))"
proof (induction ids arbitrary: n w)
  case Nil
  then show ?case by simp
next
  case (Cons i ids)
  from Cons.prems have "keyed (FolderRepo_delete i w)" by (rule keyed_removes)
  from Cons.IH [OF this, of "n + 1"] show ?case by simp
qed

lemma FolderService_delete_keyed:
  assumes "keyed w"
  shows "keyed (snd (FolderService_delete stack i now w))"
proof (cases "FolderRepo_getRequired w i")
  case (Inl e)
  with assms show ?thesis by (simp add: FolderService_delete_def)
next
  case (Inr folder)
  let ?room = "Folder.dataroomId folder"
  show ?thesis
  proof (cases "getDescendantFolderIds stack i (FolderRepo_listByDataroom w ?room)")
    case None
    with Inr assms show ?thesis by (simp add: FolderService_delete_def Let_def)
  next
    case (Some ds)
    let ?a = "deleteAffectedFiles now (i # ds) (FileRepo_listByDataroom w ?room) 0 w"
    have a: "keyed (snd ?a)" by (rule deleteAffectedFiles_keyed [OF assms])
    obtain r w1 where aw: "?a = (r, w1)" by (cases ?a)
    with a have k1: "keyed w1" by simp
    show ?thesis
    proof (cases r)
      case (Inl e)
      with Inr Some aw k1 show ?thesis by (simp add: FolderService_delete_def Let_def)
    next
      case (Inr deletedFiles)
      obtain k w2 where fw: "deleteFolders (rev ds) 0 w1 = (k, w2)" by (cases "deleteFolders (rev ds) 0 w1")
      have "keyed w2" using deleteFolders_keyed [OF k1, of "rev ds" 0] fw by simp
      then have "keyed (FolderRepo_delete i w2)" by (rule keyed_removes)
      with \<open>FolderRepo_getRequired w i = Inr folder\<close> Some aw Inr fw show ?thesis
        by (simp add: FolderService_delete_def Let_def)
    qed
  qed
qed

lemma DataroomService_create_keyed:
  "keyed w \<Longrightarrow> keyed (snd (DataroomService_create newName newId now w))"
proof -
  assume k: "keyed w"
  have "keyed (snd (case DataroomRepo_insert d (generateId newId w) of
                      (Inl e, w1) \<Rightarrow> (Inl e, w1)
                    | (Inr _, w1) \<Rightarrow> (Inr d, w1)))" for d
    using k by (cases "DataroomRepo_insert d (generateId newId w)")
      (auto simp: DataroomRepo_insert_def generateId_def keyed_def split: sum.splits if_splits)
  with k show ?thesis
    by (simp add: DataroomService_create_def Let_def split: sum.splits)
qed

lemma DataroomService_rename_keyed:
  "keyed w \<Longrightarrow> keyed (snd (DataroomService_rename i newName now w))"
  by (auto simp: DataroomService_rename_def Let_def split: sum.splits)

lemma DataroomService_delete_keyed:
  "keyed w \<Longrightarrow> keyed (snd (DataroomService_delete i w))"
proof -
  assume k: "keyed w"
  let ?w1 = "snd (if length (FileRepo_listByDataroom w i) > 0
              then BlobRepo_deleteMany (map FileObject.blobKey (FileRepo_listByDataroom w i)) 0 w
              else (0, w))"
  from k have "keyed ?w1" by simp
  then have "keyed (snd (FileRepo_deleteByDataroom i ?w1))" by (rule keyed_removes)
  then have "keyed (snd (FolderRepo_deleteByDataroom i (snd (FileRepo_deleteByDataroom i ?w1))))"
    by (rule keyed_removes)
  then show ?thesis
    by (simp add: DataroomService_delete_def Let_def case_prod_beta)
qed

lemma reachable_keyed: "reachable w \<Longrightarrow> keyed w"
proof (induction rule: reachable.induct)
  case start
  show ?case by (simp add: keyed_def emptyWorld_def)
next
  case (dataroom_touch w i now)
  then show ?case by (simp add: DataroomService_touch_def)
qed (simp_all add: DataroomService_create_keyed DataroomService_rename_keyed DataroomService_delete_keyed
       FolderService_create_keyed FolderService_rename_keyed FolderService_delete_keyed
       FolderService_move_keyed FileService_upload_keyed FileService_rename_keyed
       FileService_delete_keyed FileService_move_keyed)

subsection \<open>The cascade\<close>

text \<open>
  \<open>delete\<close> reads the folders and the files of the folder's own room
  (\<open>listByDataroom(folder.dataroomId)\<close>) and walks the parent links among those folders.
  \<open>roomSubtreeIds w c\<close> is what the walk covers: the id of \<open>c\<close> and the ids that lead to it by
  parent links of folders of the room of \<open>c\<close>. \<open>cascadeFile w c f\<close>: the file \<open>f\<close> is of that room
  and its parent is one of these ids.
\<close>

definition roomSubtreeIds :: "World \<Rightarrow> Folder \<Rightarrow> ID set" where
  "roomSubtreeIds w c =
     insert (Folder.id c)
       {x. (x, Folder.id c)
             \<in> (linksOf (filter (\<lambda>f. Folder.dataroomId f = Folder.dataroomId c) (World.folders w)))\<^sup>+}"

definition cascadeFile :: "World \<Rightarrow> Folder \<Rightarrow> FileObject \<Rightarrow> bool" where
  "cascadeFile w c f \<longleftrightarrow>
     FileObject.dataroomId f = Folder.dataroomId c
     \<and> (\<exists>p \<in> roomSubtreeIds w c. FileObject.parentId f = Some p)"

lemma linksOf_mono: "set fs \<subseteq> set gs \<Longrightarrow> linksOf fs \<subseteq> linksOf gs"
  by (auto simp: linksOf_def)

lemma linksOf_source: "(y, z) \<in> (linksOf fs)\<^sup>+ \<Longrightarrow> \<exists>f \<in> set fs. Folder.id f = y"
  by (auto simp: linksOf_def dest!: tranclD)

text \<open>
  A store in which a folder and a file of one room lie in a folder of another room:
  neither \<open>create\<close> nor \<open>upload\<close> compares the room of the parent folder with the room it
  is given. It is the sample store after a second room \<open>r2\<close> was created, and a folder \<open>X\<close>
  and a file of room \<open>r2\<close> were put into folder \<open>A\<close> of room \<open>r1\<close>.
\<close>

definition crossWorld :: World where
  "crossWorld =
     \<lparr>datarooms = [\<lparr>Dataroom.id = ''r1'', name = ''Acme'', createdAt = 1, updatedAt = 4\<rparr>,
                   \<lparr>Dataroom.id = ''r2'', name = ''Other'', createdAt = 5, updatedAt = 7\<rparr>],
      folders = [\<lparr>Folder.id = ''fa'', dataroomId = ''r1'', parentId = None, name = ''A'',
                  createdAt = 2, updatedAt = 2\<rparr>,
                 \<lparr>Folder.id = ''fb'', dataroomId = ''r1'', parentId = Some ''fa'', name = ''B'',
                  createdAt = 3, updatedAt = 3\<rparr>,
                 \<lparr>Folder.id = ''fx'', dataroomId = ''r2'', parentId = Some ''fa'', name = ''X'',
                  createdAt = 6, updatedAt = 6\<rparr>],
      files = [\<lparr>FileObject.id = ''l1'', dataroomId = ''r1'', parentId = Some ''fb'', name = ''q1.pdf'',
                mimeType = ''application/pdf'', size = 3, blobKey = ''k1'', createdAt = 4, updatedAt = 4\<rparr>,
               \<lparr>FileObject.id = ''l9'', dataroomId = ''r2'', parentId = Some ''fa'', name = ''q1.pdf'',
                mimeType = ''application/pdf'', size = 3, blobKey = ''k9'', createdAt = 7, updatedAt = 7\<rparr>],
      blobs = [\<lparr>key = ''k1'', data = pdfFile\<rparr>, \<lparr>key = ''k9'', data = pdfFile\<rparr>],
      issued = {''l9'', ''k9'', ''fx'', ''r2'', ''r1'', ''fa'', ''fb'', ''k1'', ''l1''}\<rparr>"

lemma crossWorld_reachable: "reachable crossWorld"
proof -
  define w5 where "w5 = snd (DataroomService_create ''Other'' ''r2'' 5 sampleWorld)"
  define w6 where "w6 = snd (FolderService_create ''X'' ''r2'' (Some ''fa'') KeepBoth ''fx'' 6 w5)"
  define w7 where "w7 = snd (FileService_upload pdfFile ''r2'' (Some ''fa'') KeepBoth ''k9'' ''l9'' 7 w6)"
  have names: "normalizeName ''Other'' = ''Other''" "normalizeName ''X'' = ''X''"
    "normalizeName ''q1.pdf'' = ''q1.pdf''"
    by code_simp+
  have valid: "validateName ''Other'' FolderKind = Inr ()" "validateName ''X'' FolderKind = Inr ()"
    "validateName ''q1.pdf'' FileKind = Inr ()"
    by code_simp+
  have e5: "w5 = sampleWorld
              \<lparr>datarooms := [\<lparr>Dataroom.id = ''r1'', name = ''Acme'', createdAt = 1, updatedAt = 4\<rparr>,
                             \<lparr>Dataroom.id = ''r2'', name = ''Other'', createdAt = 5, updatedAt = 5\<rparr>],
               issued := {''r2'', ''r1'', ''fa'', ''fb'', ''k1'', ''l1''}\<rparr>"
    by (simp add: w5_def DataroomService_create_def sampleWorld_def names valid Let_def
        resolveDataroomNameCollision_def resolveNameCollision_def DataroomRepo_list_def
        DataroomRepo_insert_def generateId_def)
  have e6: "w6 = sampleWorld
              \<lparr>datarooms := [\<lparr>Dataroom.id = ''r1'', name = ''Acme'', createdAt = 1, updatedAt = 4\<rparr>,
                             \<lparr>Dataroom.id = ''r2'', name = ''Other'', createdAt = 5, updatedAt = 6\<rparr>],
               World.folders := [\<lparr>Folder.id = ''fa'', dataroomId = ''r1'', parentId = None, name = ''A'',
                            createdAt = 2, updatedAt = 2\<rparr>,
                           \<lparr>Folder.id = ''fb'', dataroomId = ''r1'', parentId = Some ''fa'', name = ''B'',
                            createdAt = 3, updatedAt = 3\<rparr>,
                           \<lparr>Folder.id = ''fx'', dataroomId = ''r2'', parentId = Some ''fa'', name = ''X'',
                            createdAt = 6, updatedAt = 6\<rparr>],
               issued := {''fx'', ''r2'', ''r1'', ''fa'', ''fb'', ''k1'', ''l1''}\<rparr>"
    by (simp add: w6_def e5 sampleWorld_def FolderService_create_def names valid Let_def
        DataroomRepo_getRequired_def DataroomRepo_get_def verifyParentFolder_def
        FolderRepo_getRequired_def FolderRepo_get_def
        FolderRepo_nameExistsInParent_def FolderRepo_listByParent_def
        FolderRepo_insert_def generateId_def DataroomRepo_touch_def)
  have e7: "w7 = crossWorld"
    by (auto simp: w7_def e6 FileService_upload_def names valid Let_def pdfFile_def sampleWorld_def
        crossWorld_def
        DataroomRepo_getRequired_def DataroomRepo_get_def verifyParentFolder_def
        FolderRepo_getRequired_def FolderRepo_get_def
        FileRepo_nameExistsInParent_def FileRepo_listByParent_def
        BlobRepo_put_def FileRepo_insert_def generateId_def DataroomRepo_touch_def)
  have "reachable w5"
    unfolding w5_def by (rule reachable.dataroom_create [OF sampleWorld_reachable])
      (simp add: fresh_def sampleWorld_def)
  then have "reachable w6"
    unfolding w6_def by (rule reachable.folder_create) (simp add: fresh_def e5 sampleWorld_def)
  then have "reachable w7"
    unfolding w7_def by (rule reachable.file_upload) (simp_all add: fresh_def e6 sampleWorld_def)
  with e7 show ?thesis by simp
qed

text \<open>
  Claim C3 fails as stated. Every step to the store above is a call of a service;
  \<open>delete\<close> on folder \<open>A\<close> returns the counts 2 and 1, and afterwards the folder \<open>X\<close> and the
  file \<open>l9\<close>, whose \<open>parentId\<close> is the id of \<open>A\<close>, are still stored, the file with its blob.
\<close>

theorem FolderService_delete_cross_room_counterexample:
  "reachable crossWorld
   \<and> FolderRepo_get crossWorld ''fa''
       = Some \<lparr>Folder.id = ''fa'', dataroomId = ''r1'', parentId = None, name = ''A'',
                createdAt = 2, updatedAt = 2\<rparr>
   \<and> fst (FolderService_delete 10 ''fa'' 9 crossWorld)
       = Inr \<lparr>FolderDeleteResult.folders = 2, files = 1\<rparr>
   \<and> World.folders (snd (FolderService_delete 10 ''fa'' 9 crossWorld))
       = [\<lparr>Folder.id = ''fx'', dataroomId = ''r2'', parentId = Some ''fa'', name = ''X'',
           createdAt = 6, updatedAt = 6\<rparr>]
   \<and> World.files (snd (FolderService_delete 10 ''fa'' 9 crossWorld))
       = [\<lparr>FileObject.id = ''l9'', dataroomId = ''r2'', parentId = Some ''fa'', name = ''q1.pdf'',
           mimeType = ''application/pdf'', size = 3, blobKey = ''k9'', createdAt = 7, updatedAt = 7\<rparr>]
   \<and> World.blobs (snd (FolderService_delete 10 ''fa'' 9 crossWorld)) = [\<lparr>key = ''k9'', data = pdfFile\<rparr>]"
proof -
  have d: "getDescendantFolderIds 10 ''fa''
             [\<lparr>Folder.id = ''fa'', dataroomId = ''r1'', parentId = None, name = ''A'', createdAt = 2, updatedAt = 2\<rparr>,
              \<lparr>Folder.id = ''fb'', dataroomId = ''r1'', parentId = Some ''fa'', name = ''B'', createdAt = 3, updatedAt = 3\<rparr>]
           = Some [''fb'']"
    by code_simp
  have g: "FolderRepo_get crossWorld ''fa''
       = Some \<lparr>Folder.id = ''fa'', dataroomId = ''r1'', parentId = None, name = ''A'',
                createdAt = 2, updatedAt = 2\<rparr>"
    by (simp add: FolderRepo_get_def crossWorld_def)
  have run: "fst (FolderService_delete 10 ''fa'' 9 crossWorld)
       = Inr \<lparr>FolderDeleteResult.folders = 2, files = 1\<rparr>
     \<and> World.folders (snd (FolderService_delete 10 ''fa'' 9 crossWorld))
       = [\<lparr>Folder.id = ''fx'', dataroomId = ''r2'', parentId = Some ''fa'', name = ''X'',
           createdAt = 6, updatedAt = 6\<rparr>]
     \<and> World.files (snd (FolderService_delete 10 ''fa'' 9 crossWorld))
       = [\<lparr>FileObject.id = ''l9'', dataroomId = ''r2'', parentId = Some ''fa'', name = ''q1.pdf'',
           mimeType = ''application/pdf'', size = 3, blobKey = ''k9'', createdAt = 7, updatedAt = 7\<rparr>]
     \<and> World.blobs (snd (FolderService_delete 10 ''fa'' 9 crossWorld)) = [\<lparr>key = ''k9'', data = pdfFile\<rparr>]"
    by (simp add: FolderService_delete_def crossWorld_def Let_def d
        FolderRepo_getRequired_def FolderRepo_get_def FolderRepo_listByDataroom_def
        FileRepo_listByDataroom_def FileService_delete_def FileRepo_getRequired_def FileRepo_get_def
        BlobRepo_delete_def FileRepo_delete_def FolderRepo_delete_def DataroomRepo_touch_def)
  from crossWorld_reachable g run show ?thesis by blast
qed

text \<open>
  Claim C3, amended. In a store that the services have produced, and with a call stack
  deeper than the number of folders, \<open>FolderService.delete\<close> on an existing folder \<open>c\<close> returns
  normally. It removes exactly \<open>c\<close>, the folders of the room of \<open>c\<close> that descend from \<open>c\<close>
  through folders of that room, and the files of that room whose parent is one of them;
  the two counts it returns are the numbers of folders and of files removed; and no blob is
  left under the \<open>blobKey\<close> of a removed file.
\<close>

theorem FolderService_delete_cascade_in_room:
  assumes reach: "reachable w" and c: "c \<in> set (World.folders w)"
    and stack: "length (World.folders w) < stack"
  shows "fst (FolderService_delete stack (Folder.id c) now w)
           = Inr \<lparr>FolderDeleteResult.folders =
                    card {f \<in> set (World.folders w). Folder.id f \<in> roomSubtreeIds w c},
                  files = card {f \<in> set (World.files w). cascadeFile w c f}\<rparr>
         \<and> World.folders (snd (FolderService_delete stack (Folder.id c) now w))
             = filter (\<lambda>f. Folder.id f \<notin> roomSubtreeIds w c) (World.folders w)
         \<and> World.files (snd (FolderService_delete stack (Folder.id c) now w))
             = filter (\<lambda>f. \<not> cascadeFile w c f) (World.files w)
         \<and> (\<forall>f \<in> set (World.files w).
               cascadeFile w c f \<longrightarrow>
               \<not> (\<exists>b \<in> set (World.blobs (snd (FolderService_delete stack (Folder.id c) now w))).
                     DBBlob.key b = FileObject.blobKey f))"
proof -
  let ?i = "Folder.id c"
  let ?room = "Folder.dataroomId c"
  let ?all = "World.folders w"
  let ?fs = "FolderRepo_listByDataroom w ?room"
  let ?allFiles = "FileRepo_listByDataroom w ?room"
  from reachable_keyed [OF reach]
  have dF: "distinct (map Folder.id ?all)" and dL: "distinct (map FileObject.id (World.files w))"
    by (simp_all add: keyed_def)
  have acyc: "(x, x) \<notin> (linksOf ?all)\<^sup>+" for x
    using linksRanked_no_cycle [OF reachable_linksRanked [OF reach]] by (simp add: parentLinks_linksOf)
  \<comment> \<open>the folder is found\<close>
  have get: "FolderRepo_getRequired w ?i = Inr c"
    using find_distinct_key [OF dF c] by (simp add: FolderRepo_getRequired_def FolderRepo_get_def)
  \<comment> \<open>the walk returns the descendants within the room, each once\<close>
  have fs: "?fs = filter (\<lambda>f. Folder.dataroomId f = ?room) ?all"
    by (simp add: FolderRepo_listByDataroom_def)
  have sub: "linksOf ?fs \<subseteq> linksOf ?all" by (rule linksOf_mono) (simp add: fs)
  have acyc': "(y, y) \<notin> (linksOf ?fs)\<^sup>+" for y
    using acyc trancl_mono [OF _ sub] by blast
  have "length ?fs \<le> length ?all" by (simp add: fs)
  with stack have "length ?fs < stack" by simp
  from getDescendantFolderIds_returns [OF acyc' this]
  obtain ds where ds: "getDescendantFolderIds stack ?i ?fs = Some ds" by blast
  have setds: "set ds = {y. (y, ?i) \<in> (linksOf ?fs)\<^sup>+}" by (rule getDescendantFolderIds_set [OF ds])
  then have tree: "roomSubtreeIds w c = set (?i # ds)"
    by (simp add: roomSubtreeIds_def fs)
  have "distinct (map Folder.id ?fs)" using dF by (simp add: fs distinct_map_filter)
  from getDescendantFolderIds_distinct [OF this acyc' ds] have dds: "distinct ds" .
  have notin: "?i \<notin> set ds" using setds acyc' by simp
  \<comment> \<open>every id of the subtree is the id of a stored folder\<close>
  have stored: "\<exists>g \<in> set ?all. Folder.id g = p" if "p \<in> set (?i # ds)" for p
  proof (cases "p = ?i")
    case True
    with c show ?thesis by blast
  next
    case False
    with that setds have "(p, ?i) \<in> (linksOf ?fs)\<^sup>+" by simp
    from linksOf_source [OF this] show ?thesis by (auto simp: fs)
  qed
  \<comment> \<open>the files that the two loops delete\<close>
  let ?F = "concat (map (\<lambda>p. filter (\<lambda>f. FileObject.parentId f = Some p) ?allFiles) (?i # ds))"
  have dAll: "distinct ?allFiles"
    using dL by (simp add: FileRepo_listByDataroom_def distinct_map)
  have dFl: "distinct ?F" by (rule affected_files_distinct [OF _ dAll]) (simp add: dds notin)
  have setF: "set ?F = {f \<in> set (World.files w). cascadeFile w c f}"
  proof -
    have "set ?F = {f \<in> set ?allFiles. \<exists>p \<in> set (?i # ds). FileObject.parentId f = Some p}"
      by auto
    also have "\<dots> = {f \<in> set (World.files w). cascadeFile w c f}"
      unfolding cascadeFile_def tree by (auto simp: FileRepo_listByDataroom_def)
    finally show ?thesis .
  qed
  have subF: "set ?F \<subseteq> set (World.files w)" using setF by blast
  have inj: "inj_on FileObject.id (set (World.files w))" using dL by (simp add: distinct_map)
  have dFid: "distinct (map FileObject.id ?F)"
    using dFl inj_on_subset [OF inj subF] by (simp only: distinct_map)
  define A where "A = deleteAffectedFiles now (?i # ds) ?allFiles 0 w"
  have a: "A = deleteFolderFiles now ?F 0 w" unfolding A_def by (rule deleteAffectedFiles_concat)
  have a1: "fst A = Inr (length ?F)"
    and a2: "World.files (snd A) = filter (\<lambda>f. FileObject.id f \<notin> FileObject.id ` set ?F) (World.files w)"
    and a3: "World.blobs (snd A) = filter (\<lambda>b. DBBlob.key b \<notin> FileObject.blobKey ` set ?F) (World.blobs w)"
    using deleteFolderFiles_removes [OF dL dFid subF, of now 0] unfolding a add_0 by blast+
  have a4: "World.folders (snd A) = World.folders w"
    unfolding A_def by (rule deleteAffectedFiles_keeps [THEN conjunct1])
  \<comment> \<open>the loop over the descendant folders\<close>
  define B where "B = deleteFolders (rev ds) 0 (snd A)"
  from deleteFolders_removes [of "rev ds" 0 "snd A"]
  have b1: "fst B = length ds"
    and b2: "World.folders (snd B) = filter (\<lambda>f. Folder.id f \<notin> set ds) (World.folders w)"
    and b3: "World.files (snd B) = World.files (snd A)"
    and b4: "World.blobs (snd B) = World.blobs (snd A)"
    unfolding B_def by (simp_all add: a4)
  \<comment> \<open>the result\<close>
  have "FolderService_delete stack ?i now w
      = (case A of
           (Inl e, w1) \<Rightarrow> (Inl e, w1)
         | (Inr deletedFiles, w1) \<Rightarrow>
             (case deleteFolders (rev ds) 0 w1 of
                (deletedFolders, w2) \<Rightarrow>
                  (Inr \<lparr>FolderDeleteResult.folders = deletedFolders + 1, files = deletedFiles\<rparr>,
                   DataroomRepo_touch now ?room (FolderRepo_delete ?i w2))))"
    unfolding A_def
    by (simp add: FolderService_delete_def get ds Let_def del: deleteAffectedFiles.simps)
  moreover have "A = (Inr (length ?F), snd A)" using a1 by (simp add: prod_eq_iff)
  moreover have "deleteFolders (rev ds) 0 (snd A) = (length ds, snd B)"
    using b1 by (simp add: prod_eq_iff B_def)
  ultimately have run: "FolderService_delete stack ?i now w
      = (Inr \<lparr>FolderDeleteResult.folders = length ds + 1, files = length ?F\<rparr>,
         DataroomRepo_touch now ?room (FolderRepo_delete ?i (snd B)))"
    by (metis (no_types, lifting) old.prod.case sum.case(2))
  \<comment> \<open>the counts\<close>
  have nFolders: "card {f \<in> set ?all. Folder.id f \<in> set (?i # ds)} = length ds + 1"
  proof -
    have injF: "inj_on Folder.id (set ?all)" using dF by (simp add: distinct_map)
    have "Folder.id ` {f \<in> set ?all. Folder.id f \<in> set (?i # ds)} = set (?i # ds)"
    proof (intro set_eqI iffI)
      fix p assume "p \<in> Folder.id ` {f \<in> set ?all. Folder.id f \<in> set (?i # ds)}"
      then show "p \<in> set (?i # ds)" by blast
    next
      fix p assume p: "p \<in> set (?i # ds)"
      from stored [OF p] obtain g where g: "g \<in> set ?all" "Folder.id g = p" by blast
      with p have "g \<in> {f \<in> set ?all. Folder.id f \<in> set (?i # ds)}" by simp
      with g(2) show "p \<in> Folder.id ` {f \<in> set ?all. Folder.id f \<in> set (?i # ds)}" by blast
    qed
    moreover have "inj_on Folder.id {f \<in> set ?all. Folder.id f \<in> set (?i # ds)}"
      by (rule inj_on_subset [OF injF]) blast
    ultimately have "card {f \<in> set ?all. Folder.id f \<in> set (?i # ds)} = card (set (?i # ds))"
      by (metis card_image)
    also have "\<dots> = length (?i # ds)" by (rule distinct_card) (simp add: dds notin)
    finally show ?thesis by simp
  qed
  have nFiles: "card {f \<in> set (World.files w). cascadeFile w c f} = length ?F"
    using distinct_card [OF dFl] setF by simp
  \<comment> \<open>the tables\<close>
  have t1: "World.folders (snd (FolderService_delete stack ?i now w))
      = filter (\<lambda>f. Folder.id f \<notin> set (?i # ds)) ?all"
    by (auto simp: run b2 intro: filter_cong)
  have fileRemoved: "FileObject.id f \<in> FileObject.id ` set ?F \<longleftrightarrow> cascadeFile w c f"
    if f: "f \<in> set (World.files w)" for f
  proof
    assume "FileObject.id f \<in> FileObject.id ` set ?F"
    then obtain g where g: "g \<in> set ?F" "FileObject.id g = FileObject.id f" by (elim imageE) simp
    with subF inj f have "g = f" by (auto dest: inj_onD)
    with g(1) setF show "cascadeFile w c f" by blast
  next
    assume "cascadeFile w c f"
    with f setF have "f \<in> set ?F" by blast
    then show "FileObject.id f \<in> FileObject.id ` set ?F" by blast
  qed
  have t2: "World.files (snd (FolderService_delete stack ?i now w))
      = filter (\<lambda>f. \<not> cascadeFile w c f) (World.files w)"
    unfolding run snd_conv writes_files b3 a2 using fileRemoved by (intro filter_cong) auto
  have t3: "\<not> (\<exists>b \<in> set (World.blobs (snd (FolderService_delete stack ?i now w))).
                     DBBlob.key b = FileObject.blobKey f)"
    if "f \<in> set (World.files w)" "cascadeFile w c f" for f
  proof -
    from that setF have "f \<in> set ?F" by blast
    then have "FileObject.blobKey f \<in> FileObject.blobKey ` set ?F" by blast
    then show ?thesis unfolding run snd_conv writes_blobs b4 a3 by auto
  qed
  show ?thesis
    unfolding tree using run nFolders nFiles t1 t2 t3 by simp
qed

text \<open>
  The theorem at the sample store, which is scenario C: deleting folder \<open>A\<close> returns the counts
  2 and 1 and leaves no folder, no file and no blob.
\<close>

theorem FolderService_delete_cascade_in_room_witness:
  "reachable sampleWorld
   \<and> fst (FolderService_delete 10 ''fa'' 9 sampleWorld)
       = Inr \<lparr>FolderDeleteResult.folders = 2, files = 1\<rparr>
   \<and> card {f \<in> set (World.folders sampleWorld).
              Folder.id f \<in> roomSubtreeIds sampleWorld
                 \<lparr>Folder.id = ''fa'', dataroomId = ''r1'', parentId = None, name = ''A'',
                  createdAt = 2, updatedAt = 2\<rparr>} = 2
   \<and> card {f \<in> set (World.files sampleWorld).
              cascadeFile sampleWorld
                 \<lparr>Folder.id = ''fa'', dataroomId = ''r1'', parentId = None, name = ''A'',
                  createdAt = 2, updatedAt = 2\<rparr> f} = 1
   \<and> World.folders (snd (FolderService_delete 10 ''fa'' 9 sampleWorld)) = []
   \<and> World.files (snd (FolderService_delete 10 ''fa'' 9 sampleWorld)) = []
   \<and> World.blobs (snd (FolderService_delete 10 ''fa'' 9 sampleWorld)) = []"
proof -
  let ?A = "\<lparr>Folder.id = ''fa'', dataroomId = ''r1'', parentId = None, name = ''A'',
             createdAt = 2, updatedAt = 2\<rparr>"
  have d: "getDescendantFolderIds 10 ''fa''
             [\<lparr>Folder.id = ''fa'', dataroomId = ''r1'', parentId = None, name = ''A'', createdAt = 2, updatedAt = 2\<rparr>,
              \<lparr>Folder.id = ''fb'', dataroomId = ''r1'', parentId = Some ''fa'', name = ''B'', createdAt = 3, updatedAt = 3\<rparr>]
           = Some [''fb'']"
    by code_simp
  have run: "fst (FolderService_delete 10 ''fa'' 9 sampleWorld)
       = Inr \<lparr>FolderDeleteResult.folders = 2, files = 1\<rparr>
     \<and> World.folders (snd (FolderService_delete 10 ''fa'' 9 sampleWorld)) = []
     \<and> World.files (snd (FolderService_delete 10 ''fa'' 9 sampleWorld)) = []
     \<and> World.blobs (snd (FolderService_delete 10 ''fa'' 9 sampleWorld)) = []"
    by (simp add: FolderService_delete_def sampleWorld_def Let_def d
        FolderRepo_getRequired_def FolderRepo_get_def FolderRepo_listByDataroom_def
        FileRepo_listByDataroom_def FileService_delete_def FileRepo_getRequired_def FileRepo_get_def
        BlobRepo_delete_def FileRepo_delete_def FolderRepo_delete_def DataroomRepo_touch_def)
  have m: "?A \<in> set (World.folders sampleWorld)" and s: "length (World.folders sampleWorld) < 10"
    by (simp_all add: sampleWorld_def)
  from FolderService_delete_cascade_in_room [OF sampleWorld_reachable m s, of 9]
  have "fst (FolderService_delete 10 ''fa'' 9 sampleWorld)
           = Inr \<lparr>FolderDeleteResult.folders =
                    card {f \<in> set (World.folders sampleWorld). Folder.id f \<in> roomSubtreeIds sampleWorld ?A},
                  files = card {f \<in> set (World.files sampleWorld). cascadeFile sampleWorld ?A f}\<rparr>"
    by simp
  with run have "card {f \<in> set (World.folders sampleWorld). Folder.id f \<in> roomSubtreeIds sampleWorld ?A} = 2"
    "card {f \<in> set (World.files sampleWorld). cascadeFile sampleWorld ?A f} = 1"
    by simp_all
  with run sampleWorld_reachable show ?thesis by blast
qed

end
